theory Spec2Isabelle
  imports Main "HOL-Library.Sublist"
begin

section \<open>JavaScript values and the built-ins the router relies on\<close>

text \<open>
  The values that flow through the router: path parameters, query records, metadata bags.
  A record (a plain JavaScript object) is the list of its own enumerable properties in the
  order \<open>Object.entries\<close> yields them, with distinct keys; its prototype is
  \<open>Object.prototype\<close>, whose members every record inherits. \<open>VNative n\<close> is the member
  of \<open>Object.prototype\<close> found under the name \<open>n\<close>: a built-in function, or, for
  \<open>__proto__\<close>, what that accessor returns on a record, \<open>Object.prototype\<close> itself.
  \<open>VBoxed v\<close> is the wrapper object \<open>Object(v)\<close> of a primitive \<open>v\<close>.

  Limits of the model. A number \<open>VNum n\<close> stands for the number \<open>n\<close> when \<open>n\<close> is a
  safe integer (\<open>|n| < 2^53\<close>), which \<open>String\<close> prints in plain decimal notation.
  \<open>null\<close> and arrays are left out. Of a wrapper object and of a built-in function only
  what is inherited from \<open>Object.prototype\<close> is modelled, not their own properties; a
  record with an own \<open>toString\<close>, \<open>valueOf\<close> or \<open>toJSON\<close> property is stringified
  like any other record. \<open>Object.prototype\<close> is taken as the language defines it.
\<close>

datatype jsval =
    VUndefined
  | VBool bool
  | VNum int
  | VStr string
  | VObj "(string \<times> jsval) list"
  | VNative string
  | VBoxed jsval

text \<open>A thrown JavaScript exception: \<open>new Error(message)\<close>, or a \<open>TypeError\<close> raised by
  the language itself.\<close>

datatype exn = Error string | TypeError

text \<open>The property names of \<open>Object.prototype\<close>.\<close>

definition inheritedNames :: "string list" where
  "inheritedNames =
     [''constructor'', ''__defineGetter__'', ''__defineSetter__'', ''hasOwnProperty'',
      ''__lookupGetter__'', ''__lookupSetter__'', ''isPrototypeOf'', ''propertyIsEnumerable'',
      ''toString'', ''valueOf'', ''__proto__'', ''toLocaleString'']"

fun typeof_js :: "jsval \<Rightarrow> string" where
  "typeof_js VUndefined = ''undefined''"
| "typeof_js (VBool _) = ''boolean''"
| "typeof_js (VNum _) = ''number''"
| "typeof_js (VStr _) = ''string''"
| "typeof_js (VObj _) = ''object''"
| "typeof_js (VNative n) = (if n = ''__proto__'' then ''object'' else ''function'')"
| "typeof_js (VBoxed _) = ''object''"

fun truthy :: "jsval \<Rightarrow> bool" where
  "truthy VUndefined = False"
| "truthy (VBool b) = b"
| "truthy (VNum n) = (n \<noteq> 0)"
| "truthy (VStr s) = (s \<noteq> [])"
| "truthy (VObj _) = True"
| "truthy (VNative _) = True"
| "truthy (VBoxed _) = True"

fun isObject :: "jsval \<Rightarrow> bool" where
  "isObject (VObj _) = True"
| "isObject (VNative _) = True"
| "isObject (VBoxed _) = True"
| "isObject _ = False"

text \<open>\<open>Object(v)\<close>, called as a function.\<close>

fun Object_js :: "jsval \<Rightarrow> jsval" where
  "Object_js VUndefined = VObj []"
| "Object_js (VBool b) = VBoxed (VBool b)"
| "Object_js (VNum n) = VBoxed (VNum n)"
| "Object_js (VStr s) = VBoxed (VStr s)"
| "Object_js v = v"

definition digit_char :: "nat \<Rightarrow> char" where
  "digit_char d = ''0123456789ABCDEF'' ! d"

fun show_nat :: "nat \<Rightarrow> string" where
  "show_nat n = (if n < 10 then [digit_char n] else show_nat (n div 10) @ [digit_char (n mod 10)])"

declare show_nat.simps [simp del]

definition show_int :: "int \<Rightarrow> string" where
  "show_int i = (if i < 0 then CHR ''-'' # show_nat (nat (- i)) else show_nat (nat i))"

text \<open>\<open>String(v)\<close>. The member \<open>constructor\<close> of \<open>Object.prototype\<close> is the function
  \<open>Object\<close>; the other function members are named like their key.\<close>

fun String_js :: "jsval \<Rightarrow> string" where
  "String_js VUndefined = ''undefined''"
| "String_js (VBool b) = (if b then ''true'' else ''false'')"
| "String_js (VNum n) = show_int n"
| "String_js (VStr s) = s"
| "String_js (VObj _) = ''[object Object]''"
| "String_js (VNative n) =
     (if n = ''__proto__'' then ''[object Object]''
      else ''function '' @ (if n = ''constructor'' then ''Object'' else n) @ ''() { [native code] }'')"
| "String_js (VBoxed v) = String_js v"

text \<open>\<open>xs.join(sep)\<close> on a list of strings.\<close>

fun join_js :: "string \<Rightarrow> string list \<Rightarrow> string" where
  "join_js sep [] = []"
| "join_js sep [x] = x"
| "join_js sep (x # y # ys) = x @ sep @ join_js sep (y # ys)"

text \<open>\<open>s.split(c)\<close> for a one-character separator: the empty string splits into one
  empty piece.\<close>

fun split_js :: "char \<Rightarrow> string \<Rightarrow> string list" where
  "split_js c [] = [[]]"
| "split_js c (x # xs) =
     (if x = c then [] # split_js c xs
      else (case split_js c xs of
              [] \<Rightarrow> [[x]]
            | y # ys \<Rightarrow> (x # y) # ys))"

definition startsWith :: "string \<Rightarrow> string \<Rightarrow> bool" where
  "startsWith s p = (take (length p) s = p)"

definition endsWith :: "string \<Rightarrow> string \<Rightarrow> bool" where
  "endsWith s p = (length p \<le> length s \<and> drop (length s - length p) s = p)"

text \<open>\<open>JSON.stringify\<close>, as interpolated into a template string: a top-level
  \<open>undefined\<close> or function prints as \<open>undefined\<close>, a property whose value is
  \<open>undefined\<close> or a function is left out.\<close>

definition json_escape :: "char \<Rightarrow> string" where
  "json_escape c =
     (let n = (of_char c :: nat) in
      if n = 0x22 then [CHR 0x5C, CHR 0x22]
      else if n = 0x5C then [CHR 0x5C, CHR 0x5C]
      else if n = 0x08 then [CHR 0x5C, CHR ''b'']
      else if n = 0x0C then [CHR 0x5C, CHR ''f'']
      else if n = 0x0A then [CHR 0x5C, CHR ''n'']
      else if n = 0x0D then [CHR 0x5C, CHR ''r'']
      else if n = 0x09 then [CHR 0x5C, CHR ''t'']
      else if n < 0x20 then [CHR 0x5C, CHR ''u'', CHR ''0'', CHR ''0'',
                             ''0123456789abcdef'' ! (n div 16), ''0123456789abcdef'' ! (n mod 16)]
      else [c])"

definition json_quote :: "string \<Rightarrow> string" where
  "json_quote s = CHR 0x22 # concat (map json_escape s) @ [CHR 0x22]"

fun JSON_stringify :: "jsval \<Rightarrow> string"
  and JSON_members :: "(string \<times> jsval) list \<Rightarrow> string list" where
  "JSON_stringify VUndefined = ''undefined''"
| "JSON_stringify (VBool b) = (if b then ''true'' else ''false'')"
| "JSON_stringify (VNum n) = show_int n"
| "JSON_stringify (VStr s) = json_quote s"
| "JSON_stringify (VObj kvs) = ''{'' @ join_js '','' (JSON_members kvs) @ ''}''"
| "JSON_stringify (VNative n) = (if n = ''__proto__'' then ''{}'' else ''undefined'')"
| "JSON_stringify (VBoxed v) = JSON_stringify v"
| "JSON_members [] = []"
| "JSON_members ((k, v) # kvs) =
     (if typeof_js v = ''undefined'' \<or> typeof_js v = ''function'' then JSON_members kvs
      else (json_quote k @ '':'' @ JSON_stringify v) # JSON_members kvs)"

text \<open>The \<open>application/x-www-form-urlencoded\<close> serializer behind
  \<open>new URLSearchParams(entries).toString()\<close>, on the UTF-8 bytes of a string.\<close>

definition urlencode_byte :: "char \<Rightarrow> string" where
  "urlencode_byte c =
     (let n = (of_char c :: nat) in
      if n = 0x20 then ''+''
      else if n = 0x2A \<or> n = 0x2D \<or> n = 0x2E \<or> n = 0x5F
            \<or> (0x30 \<le> n \<and> n \<le> 0x39) \<or> (0x41 \<le> n \<and> n \<le> 0x5A) \<or> (0x61 \<le> n \<and> n \<le> 0x7A)
      then [c]
      else [CHR ''%'', digit_char (n div 16), digit_char (n mod 16)])"

definition urlencode :: "string \<Rightarrow> string" where
  "urlencode s = concat (map urlencode_byte s)"

definition URLSearchParams_toString :: "(string \<times> string) list \<Rightarrow> string" where
  "URLSearchParams_toString entries =
     join_js ''&'' (map (\<lambda>(k, v). urlencode k @ ''='' @ urlencode v) entries)"

text \<open>\<open>Object.entries(v)\<close>: the properties of a record; the index/character pairs of a
  string or of its wrapper; nothing for the other values.\<close>

fun Object_entries :: "jsval \<Rightarrow> (string \<times> jsval) list" where
  "Object_entries (VObj kvs) = kvs"
| "Object_entries (VStr s) = map (\<lambda>(i, c). (show_nat i, VStr [c])) (enumerate 0 s)"
| "Object_entries (VBoxed (VStr s)) = map (\<lambda>(i, c). (show_nat i, VStr [c])) (enumerate 0 s)"
| "Object_entries _ = []"

definition Object_keys :: "jsval \<Rightarrow> string list" where
  "Object_keys v = map fst (Object_entries v)"

text \<open>
  Properties of a record. \<open>get_prop\<close> finds an own property and \<open>set_prop\<close> puts one in
  place. \<open>lookup_js\<close> is the read \<open>obj[key]\<close> with its three outcomes: an own property,
  a member inherited from \<open>Object.prototype\<close>, or nothing (\<open>undefined\<close>). \<open>has_prop\<close> is
  the test \<open>key in obj\<close>, which inherited members pass, and \<open>read_prop\<close> the read
  \<open>obj[key]\<close> on a record of values. \<open>assign_prop\<close> is the assignment \<open>obj[key] = v\<close>:
  under the key \<open>__proto__\<close>, unless the record has an own property of that name, it
  reaches the inherited setter, which creates no property (it replaces the prototype of
  the record when \<open>v\<close> is an object, which the model does not follow).
\<close>

definition get_prop :: "(string \<times> 'a) list \<Rightarrow> string \<Rightarrow> 'a option" where
  "get_prop kvs k = map_of kvs k"

fun set_prop :: "(string \<times> 'a) list \<Rightarrow> string \<Rightarrow> 'a \<Rightarrow> (string \<times> 'a) list" where
  "set_prop [] k v = [(k, v)]"
| "set_prop ((k', v') # kvs) k v =
     (if k' = k then (k, v) # kvs else (k', v') # set_prop kvs k v)"

datatype 'a Lookup = Absent | Own 'a | Inherited

definition lookup_js :: "(string \<times> 'a) list \<Rightarrow> string \<Rightarrow> 'a Lookup" where
  "lookup_js kvs k =
     (case map_of kvs k of
        Some v \<Rightarrow> Own v
      | None \<Rightarrow> if k \<in> set inheritedNames then Inherited else Absent)"

definition has_prop :: "(string \<times> 'a) list \<Rightarrow> string \<Rightarrow> bool" where
  "has_prop kvs k = (k \<in> set (map fst kvs) \<or> k \<in> set inheritedNames)"

definition read_prop :: "(string \<times> jsval) list \<Rightarrow> string \<Rightarrow> jsval" where
  "read_prop kvs k =
     (case lookup_js kvs k of
        Own v \<Rightarrow> v
      | Inherited \<Rightarrow> VNative k
      | Absent \<Rightarrow> VUndefined)"

definition assign_prop :: "(string \<times> 'a) list \<Rightarrow> string \<Rightarrow> 'a \<Rightarrow> (string \<times> 'a) list" where
  "assign_prop kvs k v =
     (if k = ''__proto__'' \<and> k \<notin> set (map fst kvs) then kvs else set_prop kvs k v)"

text \<open>\<open>obj[key]\<close> on any value: a primitive has no properties of its own (the members of
  its own prototype are not modelled).\<close>

definition read_js :: "jsval \<Rightarrow> string \<Rightarrow> jsval" where
  "read_js obj k =
     (case obj of
        VObj kvs \<Rightarrow> read_prop kvs k
      | VNative _ \<Rightarrow> read_prop [] k
      | VBoxed _ \<Rightarrow> read_prop [] k
      | _ \<Rightarrow> VUndefined)"

text \<open>\<open>s.replace(pattern, replacement)\<close> with a string pattern: the first occurrence is
  replaced, and in the replacement \<open>$$\<close>, \<open>$&\<close>, \<open>$`\<close> and \<open>$'\<close> stand for a
  dollar sign, the matched text, the text before it and the text after it.\<close>

fun find_first :: "string \<Rightarrow> string \<Rightarrow> string \<Rightarrow> (string \<times> string) option" where
  "find_first pat pre [] = (if pat = [] then Some (pre, []) else None)"
| "find_first pat pre (c # cs) =
     (if take (length pat) (c # cs) = pat then Some (pre, drop (length pat) (c # cs))
      else find_first pat (pre @ [c]) cs)"

fun expand_replacement :: "string \<Rightarrow> string \<Rightarrow> string \<Rightarrow> string \<Rightarrow> string" where
  "expand_replacement pre matched post [] = []"
| "expand_replacement pre matched post [c] = [c]"
| "expand_replacement pre matched post (c # d # r) =
     (if c = CHR ''$'' \<and> d = CHR ''$'' then CHR ''$'' # expand_replacement pre matched post r
      else if c = CHR ''$'' \<and> d = CHR ''&'' then matched @ expand_replacement pre matched post r
      else if c = CHR ''$'' \<and> d = CHR 0x60 then pre @ expand_replacement pre matched post r
      else if c = CHR ''$'' \<and> d = CHR 0x27 then post @ expand_replacement pre matched post r
      else c # expand_replacement pre matched post (d # r))"

definition replace_js :: "string \<Rightarrow> string \<Rightarrow> string \<Rightarrow> string" where
  "replace_js s pat repl =
     (case find_first pat [] s of
        None \<Rightarrow> s
      | Some (pre, post) \<Rightarrow> pre @ expand_replacement pre pat post repl @ post)"

section \<open>parser.ts: the parser adapter\<close>

text \<open>
  A parser is recognised by its shape. \<open>call_fn\<close> is present when the value is itself
  a function; \<open>parse_fn\<close>, \<open>validateSync_fn\<close> and \<open>decode_fn\<close> are present when the value
  has a method of that name. A method either throws or returns.
\<close>

datatype either = Left jsval | Right jsval

record Parser =
  call_fn :: "(jsval \<Rightarrow> exn + jsval) option"
  parse_fn :: "(jsval \<Rightarrow> exn + jsval) option"
  validateSync_fn :: "(jsval \<Rightarrow> exn + jsval) option"
  decode_fn :: "(jsval \<Rightarrow> exn + either) option"

type_synonym ParserMap = "(string \<times> Parser) list"

definition runParser :: "Parser \<Rightarrow> jsval \<Rightarrow> exn + jsval" where
  "runParser parser v =
     (case call_fn parser of
        Some f \<Rightarrow> f v
      | None \<Rightarrow>
     (case parse_fn parser of
        Some f \<Rightarrow> f v
      | None \<Rightarrow>
     (case validateSync_fn parser of
        Some f \<Rightarrow> f v
      | None \<Rightarrow>
     (case decode_fn parser of
        Some d \<Rightarrow>
          (case d v of
             Inl e \<Rightarrow> Inl e
           | Inr (Right r) \<Rightarrow> Inr r
           | Inr (Left l) \<Rightarrow> Inl (Error (''Decode failed: '' @ JSON_stringify l)))
      | None \<Rightarrow>
          Inl (Error ''Invalid parser: must be a function or have .parse(), .validateSync(), or .decode() method'')))))"

text \<open>The loop of the combined parser over \<open>Object.entries(parserMap)\<close>, with the
  record built so far: \<open>if (key in obj) result[key] = runParser(parser, obj[key])\<close>.\<close>

fun parseEntries :: "ParserMap \<Rightarrow> (string \<times> jsval) list \<Rightarrow> (string \<times> jsval) list \<Rightarrow> exn + jsval" where
  "parseEntries [] obj result = Inr (VObj result)"
| "parseEntries ((key, parser) # rest) obj result =
     (if has_prop obj key then
        (case runParser parser (read_prop obj key) of
           Inl e \<Rightarrow> Inl e
         | Inr v \<Rightarrow> parseEntries rest obj (assign_prop result key v))
      else parseEntries rest obj result)"

text \<open>The \<open>parse\<close> method of the combined parser. On a primitive the \<open>in\<close> operator
  throws a \<open>TypeError\<close>, at the first entry of the map.\<close>

definition objectParse :: "ParserMap \<Rightarrow> jsval \<Rightarrow> exn + jsval" where
  "objectParse parserMap obj =
     (case obj of
        VObj kvs \<Rightarrow> parseEntries parserMap kvs []
      | VNative _ \<Rightarrow> parseEntries parserMap [] []
      | VBoxed _ \<Rightarrow> parseEntries parserMap [] []
      | _ \<Rightarrow> (case parserMap of [] \<Rightarrow> Inr (VObj []) | _ # _ \<Rightarrow> Inl TypeError))"

definition createObjectParser :: "ParserMap \<Rightarrow> Parser" where
  "createObjectParser parserMap =
     \<lparr>call_fn = None, parse_fn = Some (objectParse parserMap),
      validateSync_fn = None, decode_fn = None\<rparr>"

text \<open>
  A member of \<open>Object.prototype\<close> used as a parser. The function members are called
  by \<open>runParser\<close> as plain functions, with no receiver: \<open>Object(v)\<close> converts its
  argument to an object, \<open>toString\<close> returns the tag of \<open>undefined\<close>, \<open>isPrototypeOf\<close>
  returns \<open>false\<close> for a primitive argument, and every other one (and \<open>isPrototypeOf\<close>
  on an object) throws a \<open>TypeError\<close> when it converts its missing receiver to an
  object. \<open>Object.prototype\<close> itself, found under \<open>__proto__\<close>, has none of the four
  shapes.
\<close>

definition callNative :: "string \<Rightarrow> jsval \<Rightarrow> exn + jsval" where
  "callNative n v =
     (if n = ''constructor'' then Inr (Object_js v)
      else if n = ''toString'' then Inr (VStr ''[object Undefined]'')
      else if n = ''isPrototypeOf'' \<and> \<not> isObject v then Inr (VBool False)
      else Inl TypeError)"

definition nativeParser :: "string \<Rightarrow> Parser" where
  "nativeParser n =
     \<lparr>call_fn = (if n = ''__proto__'' then None else Some (callNative n)),
      parse_fn = None, validateSync_fn = None, decode_fn = None\<rparr>"

section \<open>types.ts: the data model\<close>

type_synonym Meta = "(string \<times> jsval) list"

record RoutishOptions =
  trailingSlash :: "bool option"

record RouteConfig =
  path :: string
  query :: "ParserMap option"
  params :: "ParserMap option"
  name :: "string option"
  meta :: "Meta option"

datatype RouteDefinition = PathString string | Config RouteConfig

record RouteInfo =
  ri_pattern :: string
  ri_name :: "string option"
  ri_meta :: "Meta option"

text \<open>A resolved segment. The name of a param segment is read from the trie node
  (\<open>paramNode.paramName!\<close>), which is \<open>null\<close> on a node that a static segment created.\<close>

datatype Segment = Static string | Param "string option" string

datatype TreeNode = TreeNode
  (children: "(string \<times> TreeNode) list")
  (paramName: "string option")
  (paramParser: "Parser option")
  (queryParser: "Parser option")
  (nodeMeta: "Meta option")
  (isTerminal: bool)

record NamedRoute =
  pattern :: string
  paramNames :: "string list"
  nr_paramParser :: "Parser option"
  nr_queryParser :: "Parser option"
  nr_meta :: "Meta option"
  nr_options :: RoutishOptions

text \<open>What a rendered route exposes: \<open>__segments\<close>, \<open>__query\<close>, and the results of
  \<open>getMeta()\<close>, \<open>toString()\<close> and \<open>toPattern()\<close>.\<close>

record RouteNode =
  rn_segments :: "Segment list"
  rn_query :: jsval
  rn_getMeta :: "Meta option"
  rn_toString :: string
  rn_toPattern :: string

text \<open>The registries stored under the \<open>ROUTE_METADATA\<close> symbol.\<close>

record RouteMetadata =
  md_definitions :: "RouteDefinition list"
  md_namedRoutes :: "string \<rightharpoonup> NamedRoute"
  md_allRoutes :: "RouteInfo list"

section \<open>index.ts: building the trie and the registries\<close>

definition toConfig :: "RouteDefinition \<Rightarrow> RouteConfig" where
  "toConfig d =
     (case d of
        PathString p \<Rightarrow> \<lparr>path = p, query = None, params = None, name = None, meta = None\<rparr>
      | Config c \<Rightarrow> c)"

text \<open>\<open>path.split('/').filter(Boolean)\<close>.\<close>

definition pathSegments :: "string \<Rightarrow> string list" where
  "pathSegments p = filter (\<lambda>s. s \<noteq> []) (split_js CHR ''/'' p)"

definition newNode :: "string option \<Rightarrow> TreeNode" where
  "newNode pn = TreeNode [] pn None None None False"

text \<open>The three assignments after the walk: \<open>isTerminal = true\<close>, and the query
  parser and the metadata when the definition has them.\<close>

definition markTerminal :: "RouteConfig \<Rightarrow> TreeNode \<Rightarrow> TreeNode" where
  "markTerminal config node =
     TreeNode (children node) (paramName node) (paramParser node)
       (case query config of Some q \<Rightarrow> Some (createObjectParser q) | None \<Rightarrow> queryParser node)
       (case meta config of Some m \<Rightarrow> Some m | None \<Rightarrow> nodeMeta node)
       True"

text \<open>\<open>config.params?.[paramName]\<close>: an own entry of \<open>params\<close>, or, when \<open>params\<close> is
  given and has no such entry, the member of \<open>Object.prototype\<close> of that name.\<close>

definition paramsLookup :: "RouteConfig \<Rightarrow> string \<Rightarrow> Parser option" where
  "paramsLookup config pn =
     (case params config of
        None \<Rightarrow> None
      | Some pm \<Rightarrow>
          (case lookup_js pm pn of
             Own p \<Rightarrow> Some p
           | Inherited \<Rightarrow> Some (nativeParser pn)
           | Absent \<Rightarrow> None))"

text \<open>
  How \<open>buildTree\<close> can end. It returns the trie; or it throws; or it writes to
  \<open>Object.prototype\<close>, which changes what every object of the program inherits from then
  on: the model stops there and says nothing about the rest of the run.
\<close>

datatype 'a built = Built 'a | BuildThrows exn | PrototypeWritten

text \<open>
  The inner loop of \<open>buildTree\<close>. The source moves a cursor down the tree and mutates the
  nodes in place; here the walk returns the node with the updated child put back.

  The step \<open>node = node.children[key] ??= {...}\<close> creates a child only when the read
  finds nothing. Under a key that \<open>Object.prototype\<close> has, the read finds the inherited
  member, no child is created and the cursor moves onto that member, which is not a trie
  node and has no \<open>children\<close>: with a segment left the next step throws a \<open>TypeError\<close>;
  with none left the three final assignments are made on the member and leave the trie as
  it was. The member found under \<open>__proto__\<close> is \<open>Object.prototype\<close> itself.
\<close>

fun insertSegments :: "RouteConfig \<Rightarrow> string list \<Rightarrow> TreeNode \<Rightarrow> TreeNode built" where
  "insertSegments config [] node = Built (markTerminal config node)"
| "insertSegments config (seg # segs) node =
     (let isParam = startsWith seg '':'';
          key = (if isParam then ''$param'' else seg);
          pName = (if isParam then Some (drop 1 seg) else None)
      in case lookup_js (children node) key of
           Inherited \<Rightarrow>
             (if segs \<noteq> [] then BuildThrows TypeError
              else if key = ''__proto__'' then PrototypeWritten
              else Built node)
         | found \<Rightarrow>
             (let child = (case found of Own c \<Rightarrow> c | _ \<Rightarrow> newNode pName);
                  child' = (if isParam then
                              (case paramsLookup config (drop 1 seg) of
                                 Some p \<Rightarrow> TreeNode (children child) (paramName child) (Some p)
                                             (queryParser child) (nodeMeta child) (isTerminal child)
                               | None \<Rightarrow> child)
                            else child)
              in case insertSegments config segs child' of
                   Built c \<Rightarrow>
                     Built (TreeNode (set_prop (children node) key c)
                              (paramName node) (paramParser node) (queryParser node)
                              (nodeMeta node) (isTerminal node))
                 | BuildThrows e \<Rightarrow> BuildThrows e
                 | PrototypeWritten \<Rightarrow> PrototypeWritten))"

definition addDefinition :: "RouteDefinition \<Rightarrow> TreeNode \<Rightarrow> TreeNode built" where
  "addDefinition d root =
     (let config = toConfig d;
          segments = pathSegments (path config)
      in if length segments = 0 then Built (markTerminal config root)
         else insertSegments config segments root)"

text \<open>The outer loop of \<open>buildTree\<close>, from the root built so far.\<close>

fun buildFrom :: "RouteDefinition list \<Rightarrow> TreeNode \<Rightarrow> TreeNode built" where
  "buildFrom [] root = Built root"
| "buildFrom (d # ds) root =
     (case addDefinition d root of
        Built r \<Rightarrow> buildFrom ds r
      | BuildThrows e \<Rightarrow> BuildThrows e
      | PrototypeWritten \<Rightarrow> PrototypeWritten)"

definition buildTree :: "RouteDefinition list \<Rightarrow> TreeNode built" where
  "buildTree definitions = buildFrom definitions (newNode None)"

text \<open>The inner loop of \<open>buildNamedRoutes\<close>: the ordered parameter names and the
  parsers declared for them.\<close>

fun collectParams :: "RouteConfig \<Rightarrow> string list \<Rightarrow> string list \<times> ParserMap \<Rightarrow> string list \<times> ParserMap" where
  "collectParams d [] acc = acc"
| "collectParams d (seg # segs) (names, parsers) =
     (if startsWith seg '':'' then
        collectParams d segs
          (names @ [drop 1 seg],
           (case paramsLookup d (drop 1 seg) of
              Some p \<Rightarrow> assign_prop parsers (drop 1 seg) p
            | None \<Rightarrow> parsers))
      else collectParams d segs (names, parsers))"

definition namedRoute :: "RouteConfig \<Rightarrow> RoutishOptions \<Rightarrow> NamedRoute" where
  "namedRoute d options =
     (let (names, parsers) = collectParams d (pathSegments (path d)) ([], []) in
      \<lparr>pattern = path d,
       paramNames = names,
       nr_paramParser = (if length parsers > 0 then Some (createObjectParser parsers) else None),
       nr_queryParser = (case query d of Some q \<Rightarrow> Some (createObjectParser q) | None \<Rightarrow> None),
       nr_meta = meta d,
       nr_options = options\<rparr>)"

fun buildNamedRoutes :: "RouteDefinition list \<Rightarrow> RoutishOptions \<Rightarrow> (string \<rightharpoonup> NamedRoute) \<Rightarrow> (string \<rightharpoonup> NamedRoute)" where
  "buildNamedRoutes [] options named = named"
| "buildNamedRoutes (PathString p # ds) options named = buildNamedRoutes ds options named"
| "buildNamedRoutes (Config d # ds) options named =
     (case name d of
        None \<Rightarrow> buildNamedRoutes ds options named
      | Some n \<Rightarrow>
          if n = [] then buildNamedRoutes ds options named
          else buildNamedRoutes ds options (named(n \<mapsto> namedRoute d options)))"

definition buildAllRoutes :: "RouteDefinition list \<Rightarrow> RouteInfo list" where
  "buildAllRoutes definitions =
     map (\<lambda>d. case d of
            PathString p \<Rightarrow> \<lparr>ri_pattern = p, ri_name = None, ri_meta = None\<rparr>
          | Config c \<Rightarrow> \<lparr>ri_pattern = path c, ri_name = name c, ri_meta = meta c\<rparr>) definitions"

section \<open>index.ts: serialising\<close>

fun segmentValue :: "Segment \<Rightarrow> string" where
  "segmentValue (Static n) = n"
| "segmentValue (Param n v) = v"

fun segmentPattern :: "Segment \<Rightarrow> string" where
  "segmentPattern (Static n) = n"
| "segmentPattern (Param n v) = '':'' @ (case n of Some s \<Rightarrow> s | None \<Rightarrow> ''null'')"

definition queryString :: "jsval \<Rightarrow> string" where
  "queryString q = URLSearchParams_toString (map (\<lambda>(k, v). (k, String_js v)) (Object_entries q))"

definition buildPath :: "Segment list \<Rightarrow> jsval \<Rightarrow> bool \<Rightarrow> string" where
  "buildPath segments q ts =
     (let p = ''/'' @ join_js ''/'' (map segmentValue segments) @ (if ts then ''/'' else [])
      in if \<not> truthy q \<or> length (Object_keys q) = 0 then p
         else p @ ''?'' @ queryString q)"

definition buildPattern :: "Segment list \<Rightarrow> bool \<Rightarrow> string" where
  "buildPattern segments ts =
     ''/'' @ join_js ''/'' (map segmentPattern segments) @ (if ts then ''/'' else [])"

definition createRouteNode :: "Segment list \<Rightarrow> jsval \<Rightarrow> Meta option \<Rightarrow> bool \<Rightarrow> RouteNode" where
  "createRouteNode segments q m ts =
     \<lparr>rn_segments = segments, rn_query = q, rn_getMeta = m,
      rn_toString = buildPath segments q ts,
      rn_toPattern = buildPattern segments ts\<rparr>"

section \<open>index.ts: the navigation proxies\<close>

text \<open>
  A proxy made by \<open>createProxy\<close> is determined by the five arguments it closes over.
  Calling it is \<open>proxy_call\<close>; reading a string-keyed property of it is \<open>proxy_get\<close>,
  whose result says which branch of the \<open>get\<close> trap answered. Where the trap returns a
  function (\<open>getMeta\<close>, \<open>toString\<close>, \<open>toPattern\<close>), the result holds what calling that
  function gives. \<open>GThrow\<close> is a trap that throws, and \<open>GMetadata\<close> the value stored
  under the \<open>ROUTE_METADATA\<close> symbol, which no branch of a trap returns.
\<close>

record Nav =
  nav_segments :: "Segment list"
  nav_query :: jsval
  nav_tree :: TreeNode
  nav_options :: RoutishOptions
  nav_meta :: "Meta option"

datatype GetResult =
    GSegments "Segment list"
  | GQuery jsval
  | GGetMeta "Meta option"
  | GToString "exn + string"
  | GToPattern "exn + string"
  | GUndefined
  | GProxy Nav
  | GIndex
  | GThrow exn
  | GMetadata RouteMetadata

datatype CallResult = CallNode RouteNode | CallProxy Nav

definition createProxy :: "Segment list \<Rightarrow> jsval \<Rightarrow> TreeNode \<Rightarrow> RoutishOptions \<Rightarrow> Meta option \<Rightarrow> Nav" where
  "createProxy segments q tree options m =
     \<lparr>nav_segments = segments, nav_query = q, nav_tree = tree, nav_options = options, nav_meta = m\<rparr>"

definition trailingSlashOf :: "RoutishOptions \<Rightarrow> bool" where
  "trailingSlashOf options = (case trailingSlash options of Some b \<Rightarrow> b | None \<Rightarrow> False)"

definition notDefinedMessage :: "string \<Rightarrow> string" where
  "notDefinedMessage pat =
     [CHR 0x22] @ pat @ [CHR 0x22] @ '' is not a defined route. Did you forget to add it to createRoutes()?''"

text \<open>The part of both call handlers that descends by a parameter value.\<close>

definition callParam :: "Segment list \<Rightarrow> TreeNode \<Rightarrow> RoutishOptions \<Rightarrow> jsval \<Rightarrow> jsval \<Rightarrow> exn + Nav" where
  "callParam segments paramNode options valueOrQuery maybeQuery =
     (case (case paramParser paramNode of
              Some pp \<Rightarrow> runParser pp valueOrQuery
            | None \<Rightarrow> Inr valueOrQuery) of
        Inl e \<Rightarrow> Inl e
      | Inr v \<Rightarrow>
          (let newSegments = segments @ [Param (paramName paramNode) (String_js v)] in
           case (if truthy maybeQuery then
                   (case queryParser paramNode of
                      Some qp \<Rightarrow> runParser qp maybeQuery
                    | None \<Rightarrow> Inr maybeQuery)
                 else Inr maybeQuery) of
             Inl e \<Rightarrow> Inl e
           | Inr validated \<Rightarrow>
               Inr (createProxy newSegments validated paramNode options (nodeMeta paramNode))))"

text \<open>The call handler. \<open>tree.children['$param']\<close> is an own property or nothing:
  \<open>Object.prototype\<close> has no member of that name.\<close>

definition proxy_call :: "Nav \<Rightarrow> jsval \<Rightarrow> jsval \<Rightarrow> exn + Nav" where
  "proxy_call nav valueOrQuery maybeQuery =
     (let tree = nav_tree nav;
          paramNode = get_prop (children tree) ''$param''
      in if typeof_js valueOrQuery = ''object'' then
           (case (case queryParser tree of
                    Some qp \<Rightarrow> runParser qp valueOrQuery
                  | None \<Rightarrow> Inr valueOrQuery) of
              Inl e \<Rightarrow> Inl e
            | Inr validated \<Rightarrow>
                Inr (createProxy (nav_segments nav) validated tree (nav_options nav) (nodeMeta tree)))
         else
           (case paramNode of
              Some pn \<Rightarrow>
                if typeof_js valueOrQuery = ''string'' \<or> typeof_js valueOrQuery = ''number''
                then callParam (nav_segments nav) pn (nav_options nav) valueOrQuery maybeQuery
                else Inl (Error ''Invalid arguments'')
            | None \<Rightarrow> Inl (Error ''Invalid arguments'')))"

text \<open>\<open>tree.children[prop] ?? paramNode?.children[prop]\<close>: the second read is made
  only when the first finds nothing, neither an own child nor an inherited member.\<close>

definition childFor :: "TreeNode \<Rightarrow> string \<Rightarrow> TreeNode Lookup" where
  "childFor tree prop =
     (case lookup_js (children tree) prop of
        Own c \<Rightarrow> Own c
      | Inherited \<Rightarrow> Inherited
      | Absent \<Rightarrow>
          (case get_prop (children tree) ''$param'' of
             Some pn \<Rightarrow> lookup_js (children pn) prop
           | None \<Rightarrow> Absent))"

definition proxy_toString :: "Nav \<Rightarrow> exn + string" where
  "proxy_toString nav =
     (if \<not> isTerminal (nav_tree nav)
      then Inl (Error (notDefinedMessage (buildPattern (nav_segments nav) False)))
      else Inr (buildPath (nav_segments nav) (nav_query nav) (trailingSlashOf (nav_options nav))))"

definition proxy_toPattern :: "Nav \<Rightarrow> exn + string" where
  "proxy_toPattern nav =
     (if \<not> isTerminal (nav_tree nav)
      then Inl (Error (notDefinedMessage (buildPattern (nav_segments nav) False)))
      else Inr (buildPattern (nav_segments nav) (trailingSlashOf (nav_options nav))))"

text \<open>The \<open>get\<close> trap. When the child read finds an inherited member, the trap passes it
  to \<open>createProxy\<close> as the tree, and the first statement there,
  \<open>tree.children['$param']\<close>, throws a \<open>TypeError\<close>: the member has no \<open>children\<close>.\<close>

definition proxy_get :: "Nav \<Rightarrow> string \<Rightarrow> GetResult" where
  "proxy_get nav prop =
     (if prop = ''__segments'' then GSegments (nav_segments nav)
      else if prop = ''__query'' then GQuery (nav_query nav)
      else if prop = ''getMeta'' then
        GGetMeta (case nav_meta nav of Some m \<Rightarrow> Some m | None \<Rightarrow> nodeMeta (nav_tree nav))
      else if prop = ''toString'' then GToString (proxy_toString nav)
      else if prop = ''toPattern'' then GToPattern (proxy_toPattern nav)
      else if prop = ''then'' then GUndefined
      else (case childFor (nav_tree nav) prop of
              Own child \<Rightarrow>
                GProxy (createProxy (nav_segments nav @ [Static prop]) VUndefined child
                          (nav_options nav) (nodeMeta child))
            | Inherited \<Rightarrow> GThrow TypeError
            | Absent \<Rightarrow> GUndefined))"

subsection \<open>The root proxy and its \<open>$index\<close> accessor\<close>

text \<open>
  The proxy \<open>createRootProxy(tree, options)\<close> returns is determined by its two arguments:
  \<open>root_call\<close> is its call handler, \<open>root_get\<close> its \<open>get\<close> trap on a string key and
  \<open>root_get_symbol\<close> the same trap on a symbol. For \<open>$index\<close> the trap returns a second
  proxy, over \<open>indexFn\<close>; \<open>index_call\<close> and \<open>index_get\<close> are the call handler and the
  trap of that one.
\<close>

definition rootNotDefinedMessage :: string where
  "rootNotDefinedMessage =
     [CHR 0x22] @ ''/'' @ [CHR 0x22] @
     '' is not a defined route. Define it explicitly: createRoutes(['' @ [CHR 0x27] @ ''/'' @ [CHR 0x27] @ '', ...])''"

definition createIndexNode :: "TreeNode \<Rightarrow> RoutishOptions \<Rightarrow> jsval \<Rightarrow> exn + RouteNode" where
  "createIndexNode tree options q =
     (case (if truthy q then
              (case queryParser tree of
                 Some qp \<Rightarrow> runParser qp q
               | None \<Rightarrow> Inr q)
            else Inr q) of
        Inl e \<Rightarrow> Inl e
      | Inr validated \<Rightarrow> Inr (createRouteNode [] validated (nodeMeta tree) (trailingSlashOf options)))"

definition root_call :: "TreeNode \<Rightarrow> RoutishOptions \<Rightarrow> jsval \<Rightarrow> jsval \<Rightarrow> exn + CallResult" where
  "root_call tree options valueOrQuery maybeQuery =
     (if typeof_js valueOrQuery = ''object'' then
        (case createIndexNode tree options valueOrQuery of
           Inl e \<Rightarrow> Inl e
         | Inr n \<Rightarrow> Inr (CallNode n))
      else
        (case get_prop (children tree) ''$param'' of
           Some pn \<Rightarrow>
             if typeof_js valueOrQuery = ''string'' \<or> typeof_js valueOrQuery = ''number''
             then (case callParam [] pn options valueOrQuery maybeQuery of
                     Inl e \<Rightarrow> Inl e
                   | Inr nav \<Rightarrow> Inr (CallProxy nav))
             else Inl (Error ''Invalid arguments'')
         | None \<Rightarrow> Inl (Error ''Invalid arguments'')))"

definition index_call :: "TreeNode \<Rightarrow> RoutishOptions \<Rightarrow> jsval \<Rightarrow> exn + RouteNode" where
  "index_call tree options q = createIndexNode tree options q"

definition index_toString :: "TreeNode \<Rightarrow> RoutishOptions \<Rightarrow> exn + string" where
  "index_toString tree options =
     (if \<not> isTerminal tree then Inl (Error rootNotDefinedMessage)
      else Inr (buildPath [] VUndefined (trailingSlashOf options)))"

definition index_toPattern :: "TreeNode \<Rightarrow> RoutishOptions \<Rightarrow> exn + string" where
  "index_toPattern tree options =
     (if \<not> isTerminal tree then Inl (Error rootNotDefinedMessage)
      else Inr ''/'')"

definition index_get :: "TreeNode \<Rightarrow> RoutishOptions \<Rightarrow> string \<Rightarrow> GetResult" where
  "index_get tree options indexProp =
     (if indexProp = ''__segments'' then GSegments []
      else if indexProp = ''__query'' then GQuery VUndefined
      else if indexProp = ''getMeta'' then GGetMeta (nodeMeta tree)
      else if indexProp = ''toString'' then GToString (index_toString tree options)
      else if indexProp = ''toPattern'' then GToPattern (index_toPattern tree options)
      else GUndefined)"

definition root_get :: "TreeNode \<Rightarrow> RoutishOptions \<Rightarrow> string \<Rightarrow> GetResult" where
  "root_get tree options prop =
     (if prop = ''$index'' then GIndex
      else if prop = ''__segments'' then GSegments []
      else if prop = ''__query'' then GQuery VUndefined
      else if prop = ''getMeta'' then GGetMeta (nodeMeta tree)
      else if prop = ''toString'' then
        GToString (Inl (Error ''Cannot call toString() on routes directly. Use routes.$index for the root route.''))
      else if prop = ''toPattern'' then
        GToPattern (Inl (Error ''Cannot call toPattern() on routes directly. Use routes.$index for the root route.''))
      else if prop = ''then'' then GUndefined
      else (case childFor tree prop of
              Own child \<Rightarrow> GProxy (createProxy [Static prop] VUndefined child options (nodeMeta child))
            | Inherited \<Rightarrow> GThrow TypeError
            | Absent \<Rightarrow> GUndefined))"

text \<open>The same trap on a symbol: \<open>Symbol.toStringTag\<close> is answered like \<open>toString\<close>,
  every other symbol, \<open>ROUTE_METADATA\<close> among them, with \<open>undefined\<close>.\<close>

datatype Symbol = SymToStringTag | SymRouteMetadata | SymOther

definition root_get_symbol :: "TreeNode \<Rightarrow> RoutishOptions \<Rightarrow> Symbol \<Rightarrow> GetResult" where
  "root_get_symbol tree options prop =
     (if prop = SymToStringTag then
        GToString (Inl (Error ''Cannot call toString() on routes directly. Use routes.$index for the root route.''))
      else GUndefined)"

section \<open>index.ts: the public functions\<close>

text \<open>
  The object \<open>createRoutes\<close> returns is the root proxy over \<open>rt_tree\<close> and \<open>rt_options\<close>.
  \<open>Object.defineProperty(proxy, ROUTE_METADATA, {value, enumerable: false, writable:
  false})\<close> goes through to the target of the proxy, which has no \<open>defineProperty\<close> trap,
  and defines there a property that is not writable and, by default, not configurable;
  \<open>rt_metadata\<close> is its value. \<open>createRoutes\<close> ends as \<open>buildTree\<close> does.
\<close>

record RouteTree =
  rt_tree :: TreeNode
  rt_options :: RoutishOptions
  rt_metadata :: RouteMetadata

definition createRoutes :: "RouteDefinition list \<Rightarrow> RoutishOptions \<Rightarrow> RouteTree built" where
  "createRoutes definitions options =
     (case buildTree definitions of
        Built tree \<Rightarrow>
          Built \<lparr>rt_tree = tree,
                 rt_options = options,
                 rt_metadata =
                   \<lparr>md_definitions = definitions,
                    md_namedRoutes = buildNamedRoutes definitions options Map.empty,
                    md_allRoutes = buildAllRoutes definitions\<rparr>\<rparr>
      | BuildThrows e \<Rightarrow> BuildThrows e
      | PrototypeWritten \<Rightarrow> PrototypeWritten)"

text \<open>
  The read \<open>routes[ROUTE_METADATA]\<close>. A read through a proxy runs the \<open>get\<close> trap and
  then checks its result against the target: for a property that the target holds as a
  non-writable, non-configurable data property, the trap must have returned the value of
  that property, or the read throws a \<open>TypeError\<close>.
\<close>

definition readMetadata :: "RouteTree \<Rightarrow> exn + RouteMetadata" where
  "readMetadata routes =
     (case root_get_symbol (rt_tree routes) (rt_options routes) SymRouteMetadata of
        GMetadata m \<Rightarrow> if m = rt_metadata routes then Inr m else Inl TypeError
      | GThrow e \<Rightarrow> Inl e
      | _ \<Rightarrow> Inl TypeError)"

text \<open>The loop \<open>for (const p of route.paramNames) path = path.replace(`:${p}`, ...)\<close>.\<close>

fun substituteParams :: "string \<Rightarrow> string list \<Rightarrow> jsval \<Rightarrow> string" where
  "substituteParams p [] resolvedParams = p"
| "substituteParams p (n # ns) resolvedParams =
     substituteParams (replace_js p ('':'' @ n) (String_js (read_js resolvedParams n))) ns resolvedParams"

definition routeNotFoundMessage :: "string \<Rightarrow> string" where
  "routeNotFoundMessage n = ''Route '' @ [CHR 0x22] @ n @ [CHR 0x22] @ '' not found''"

text \<open>The three stages of \<open>getRouteByName\<close> after the lookup: the parameters run through
  the combined parameter parser, the query run through the query parser, and the string
  put together from the pattern.\<close>

definition resolveParams :: "NamedRoute \<Rightarrow> jsval \<Rightarrow> exn + jsval" where
  "resolveParams route ps =
     (case nr_paramParser route of
        Some pp \<Rightarrow> runParser pp (if ps = VUndefined then VObj [] else ps)
      | None \<Rightarrow> Inr (if ps = VUndefined then VObj [] else ps))"

definition resolveQuery :: "NamedRoute \<Rightarrow> jsval \<Rightarrow> exn + jsval" where
  "resolveQuery route q =
     (if truthy q then
        (case nr_queryParser route of
           Some qp \<Rightarrow> runParser qp q
         | None \<Rightarrow> Inr q)
      else Inr q)"

definition renderNamed :: "NamedRoute \<Rightarrow> jsval \<Rightarrow> jsval \<Rightarrow> string" where
  "renderNamed route resolvedParams resolvedQuery =
     (let p1 = substituteParams (pattern route) (paramNames route) resolvedParams;
          p2 = (if trailingSlash (nr_options route) = Some True \<and> \<not> endsWith p1 ''/''
                then p1 @ ''/'' else p1)
      in if truthy resolvedQuery \<and> length (Object_keys resolvedQuery) > 0
         then p2 @ ''?'' @ queryString resolvedQuery else p2)"

definition getRouteByName :: "RouteTree \<Rightarrow> string \<Rightarrow> jsval \<Rightarrow> jsval \<Rightarrow> exn + RouteNode" where
  "getRouteByName routes n ps q =
     (case readMetadata routes of
        Inl e \<Rightarrow> Inl e
      | Inr metadata \<Rightarrow>
     (case md_namedRoutes metadata n of
        None \<Rightarrow> Inl (Error (routeNotFoundMessage n))
      | Some route \<Rightarrow>
          (case resolveParams route ps of
             Inl e \<Rightarrow> Inl e
           | Inr resolvedParams \<Rightarrow>
               (case resolveQuery route q of
                  Inl e \<Rightarrow> Inl e
                | Inr resolvedQuery \<Rightarrow>
                    Inr \<lparr>rn_segments = [], rn_query = resolvedQuery, rn_getMeta = nr_meta route,
                         rn_toString = renderNamed route resolvedParams resolvedQuery,
                         rn_toPattern = pattern route\<rparr>))))"

definition getAllRoutes :: "RouteTree \<Rightarrow> exn + RouteInfo list" where
  "getAllRoutes routes =
     (case readMetadata routes of
        Inl e \<Rightarrow> Inl e
      | Inr metadata \<Rightarrow> Inr (md_allRoutes metadata))"

section \<open>Trie positions and call chains\<close>

text \<open>The node found by following a list of own child keys from a node.\<close>

fun nodeAt :: "TreeNode \<Rightarrow> string list \<Rightarrow> TreeNode option" where
  "nodeAt node [] = Some node"
| "nodeAt node (k # ks) =
     (case get_prop (children node) k of None \<Rightarrow> None | Some c \<Rightarrow> nodeAt c ks)"

definition terminalAt :: "TreeNode \<Rightarrow> string list \<Rightarrow> bool" where
  "terminalAt node ks = (case nodeAt node ks of Some n \<Rightarrow> isTerminal n | None \<Rightarrow> False)"

text \<open>The child key \<open>buildTree\<close> uses for a segment, and the key path of a definition.\<close>

definition segmentKey :: "string \<Rightarrow> string" where
  "segmentKey seg = (if startsWith seg '':'' then ''$param'' else seg)"

definition definitionKeys :: "RouteDefinition \<Rightarrow> string list" where
  "definitionKeys d = map segmentKey (pathSegments (path (toConfig d)))"

text \<open>The node the walk of \<open>buildTree\<close> stands on after its step for a segment: the
  child found under the segment's key, or a new one, with the validator the definition
  declares for a parametric segment.\<close>

definition edgeChild :: "RouteConfig \<Rightarrow> string \<Rightarrow> TreeNode \<Rightarrow> TreeNode" where
  "edgeChild config seg node =
     (let child = (case get_prop (children node) (segmentKey seg) of
                     Some c \<Rightarrow> c
                   | None \<Rightarrow> newNode (if startsWith seg '':'' then Some (drop 1 seg) else None))
      in if startsWith seg '':'' then
           (case paramsLookup config (drop 1 seg) of
              Some p \<Rightarrow> TreeNode (children child) (paramName child) (Some p)
                          (queryParser child) (nodeMeta child) (isTerminal child)
            | None \<Rightarrow> child)
         else child)"

text \<open>
  A caller's chain on the object \<open>createRoutes\<close> returned: \<open>Get p\<close> reads the property
  \<open>p\<close>, \<open>Call v q\<close> calls with the arguments \<open>v\<close> and \<open>q\<close>. A step descends when it
  yields a proxy; \<open>navigate\<close> is \<open>None\<close> as soon as a step throws or yields anything else.
\<close>

datatype Step = Get string | Call jsval jsval

fun descend :: "Nav \<Rightarrow> Step \<Rightarrow> Nav option" where
  "descend nav (Get p) = (case proxy_get nav p of GProxy n \<Rightarrow> Some n | _ \<Rightarrow> None)"
| "descend nav (Call v q) = (case proxy_call nav v q of Inr n \<Rightarrow> Some n | Inl _ \<Rightarrow> None)"

fun descendRoot :: "RouteTree \<Rightarrow> Step \<Rightarrow> Nav option" where
  "descendRoot routes (Get p) =
     (case root_get (rt_tree routes) (rt_options routes) p of GProxy n \<Rightarrow> Some n | _ \<Rightarrow> None)"
| "descendRoot routes (Call v q) =
     (case root_call (rt_tree routes) (rt_options routes) v q of
        Inr (CallProxy n) \<Rightarrow> Some n
      | _ \<Rightarrow> None)"

fun navigateFrom :: "Nav \<Rightarrow> Step list \<Rightarrow> Nav option" where
  "navigateFrom nav [] = Some nav"
| "navigateFrom nav (s # ss) =
     (case descend nav s of None \<Rightarrow> None | Some n \<Rightarrow> navigateFrom n ss)"

fun navigate :: "RouteTree \<Rightarrow> Step list \<Rightarrow> Nav option" where
  "navigate routes [] = None"
| "navigate routes (s # ss) =
     (case descendRoot routes s of None \<Rightarrow> None | Some n \<Rightarrow> navigateFrom n ss)"

text \<open>
  For a key path \<open>ks\<close> into the trie: whether a definition's walk goes through the node at
  \<open>ks\<close>, the segment of the definition that leads into that node, what that segment
  declares (the name of a parametric segment, nothing for a static one), and the validator
  the definition gives the node (the one \<open>config.params?.[name]\<close> finds for a parametric
  segment). \<open>pnAt\<close> and \<open>ppAt\<close> read the \<open>paramName\<close> and \<open>paramParser\<close> of the node
  at a key path.
\<close>

definition declaredName :: "string \<Rightarrow> string option" where
  "declaredName seg = (if startsWith seg '':'' then Some (drop 1 seg) else None)"

definition passesThrough :: "string list \<Rightarrow> RouteDefinition \<Rightarrow> bool" where
  "passesThrough ks d = (ks \<noteq> [] \<and> take (length ks) (definitionKeys d) = ks)"

definition edgeSegment :: "string list \<Rightarrow> RouteDefinition \<Rightarrow> string" where
  "edgeSegment ks d = pathSegments (path (toConfig d)) ! (length ks - 1)"

definition declaredValidator :: "string list \<Rightarrow> RouteDefinition \<Rightarrow> Parser option" where
  "declaredValidator ks d =
     (if passesThrough ks d \<and> startsWith (edgeSegment ks d) '':''
      then paramsLookup (toConfig d) (drop 1 (edgeSegment ks d))
      else None)"

definition pnAt :: "TreeNode \<Rightarrow> string list \<Rightarrow> string option option" where
  "pnAt node ks = map_option paramName (nodeAt node ks)"

definition ppAt :: "TreeNode \<Rightarrow> string list \<Rightarrow> Parser option option" where
  "ppAt node ks = map_option paramParser (nodeAt node ks)"


section \<open>The parser adapter\<close>

lemma sublist_after_prefix: "sublist xs (ys @ xs)"
  by (rule suffix_imp_sublist) (rule suffixI, rule refl)

text \<open>
  Claim C4. \<open>runParser\<close> picks the calling convention by the shape of the parser, in the
  order: the parser is a function, it has \<open>parse\<close>, it has \<open>validateSync\<close>, it has
  \<open>decode\<close>. For \<open>decode\<close> it returns the payload of a \<open>Right\<close> result and throws,
  on a \<open>Left\<close> result, an error whose message contains the serialised payload. A parser
  of none of the four shapes makes it throw the "Invalid parser" error.
\<close>

theorem runParser_dispatch:
  "(call_fn p = Some f1 \<longrightarrow> runParser p v = f1 v) \<and>
   (call_fn p = None \<and> parse_fn p = Some f2 \<longrightarrow> runParser p v = f2 v) \<and>
   (call_fn p = None \<and> parse_fn p = None \<and> validateSync_fn p = Some f3 \<longrightarrow> runParser p v = f3 v) \<and>
   (call_fn p = None \<and> parse_fn p = None \<and> validateSync_fn p = None \<and> decode_fn p = Some d \<longrightarrow>
      (\<forall>r. d v = Inr (Right r) \<longrightarrow> runParser p v = Inr r) \<and>
      (\<forall>l. d v = Inr (Left l) \<longrightarrow>
         runParser p v = Inl (Error (''Decode failed: '' @ JSON_stringify l)) \<and>
         sublist (JSON_stringify l) (''Decode failed: '' @ JSON_stringify l)) \<and>
      (\<forall>e. d v = Inl e \<longrightarrow> runParser p v = Inl e)) \<and>
   (call_fn p = None \<and> parse_fn p = None \<and> validateSync_fn p = None \<and> decode_fn p = None \<longrightarrow>
      runParser p v =
        Inl (Error ''Invalid parser: must be a function or have .parse(), .validateSync(), or .decode() method''))"
  by (auto simp: runParser_def sublist_after_prefix [of _ "''Decode failed: ''", simplified]
      split: option.splits sum.splits either.splits)

theorem runParser_dispatch_witness:
  "runParser \<lparr>call_fn = Some (\<lambda>x. Inr (VNum 0)), parse_fn = Some (\<lambda>x. Inr (VNum 1)),
              validateSync_fn = Some (\<lambda>x. Inr (VNum 2)),
              decode_fn = Some (\<lambda>x. Inr (Right (VNum 3)))\<rparr> (VStr ''abc'') = Inr (VNum 0)
   \<and> runParser \<lparr>call_fn = None, parse_fn = Some (\<lambda>x. Inr (VNum 1)),
              validateSync_fn = Some (\<lambda>x. Inr (VNum 2)),
              decode_fn = Some (\<lambda>x. Inr (Right (VNum 3)))\<rparr> (VStr ''abc'') = Inr (VNum 1)
   \<and> runParser \<lparr>call_fn = None, parse_fn = None,
              validateSync_fn = Some (\<lambda>x. Inr (VNum 2)),
              decode_fn = Some (\<lambda>x. Inr (Right (VNum 3)))\<rparr> (VStr ''abc'') = Inr (VNum 2)
   \<and> runParser \<lparr>call_fn = None, parse_fn = None, validateSync_fn = None,
              decode_fn = Some (\<lambda>x. Inr (Right (VNum 3)))\<rparr> (VStr ''abc'') = Inr (VNum 3)
   \<and> runParser \<lparr>call_fn = None, parse_fn = None, validateSync_fn = None,
              decode_fn = Some (\<lambda>x. Inr (Left (VObj [(''reason'', x)])))\<rparr> (VStr ''abc'')
     = Inl (Error (''Decode failed: '' @ JSON_stringify (VObj [(''reason'', VStr ''abc'')])))
   \<and> runParser \<lparr>call_fn = None, parse_fn = None, validateSync_fn = None,
              decode_fn = Some (\<lambda>x. Inl (Error ''boom''))\<rparr> (VStr ''abc'') = Inl (Error ''boom'')
   \<and> runParser \<lparr>call_fn = None, parse_fn = None, validateSync_fn = None, decode_fn = None\<rparr> VUndefined
     = Inl (Error ''Invalid parser: must be a function or have .parse(), .validateSync(), or .decode() method'')"
  using runParser_dispatch [of "\<lparr>call_fn = Some (\<lambda>x. Inr (VNum 0)), parse_fn = Some (\<lambda>x. Inr (VNum 1)),
              validateSync_fn = Some (\<lambda>x. Inr (VNum 2)),
              decode_fn = Some (\<lambda>x. Inr (Right (VNum 3)))\<rparr>" "\<lambda>x. Inr (VNum 0)" "VStr ''abc''"]
        runParser_dispatch [of "\<lparr>call_fn = None, parse_fn = Some (\<lambda>x. Inr (VNum 1)),
              validateSync_fn = Some (\<lambda>x. Inr (VNum 2)),
              decode_fn = Some (\<lambda>x. Inr (Right (VNum 3)))\<rparr>" _ "VStr ''abc''" "\<lambda>x. Inr (VNum 1)"]
        runParser_dispatch [of "\<lparr>call_fn = None, parse_fn = None,
              validateSync_fn = Some (\<lambda>x. Inr (VNum 2)),
              decode_fn = Some (\<lambda>x. Inr (Right (VNum 3)))\<rparr>" _ "VStr ''abc''" _ "\<lambda>x. Inr (VNum 2)"]
        runParser_dispatch [of "\<lparr>call_fn = None, parse_fn = None, validateSync_fn = None,
              decode_fn = Some (\<lambda>x. Inr (Right (VNum 3)))\<rparr>" _ "VStr ''abc''" _ _
              "\<lambda>x. Inr (Right (VNum 3))"]
        runParser_dispatch [of "\<lparr>call_fn = None, parse_fn = None, validateSync_fn = None,
              decode_fn = Some (\<lambda>x. Inr (Left (VObj [(''reason'', x)])))\<rparr>" _ "VStr ''abc''" _ _
              "\<lambda>x. Inr (Left (VObj [(''reason'', x)]))"]
        runParser_dispatch [of "\<lparr>call_fn = None, parse_fn = None, validateSync_fn = None,
              decode_fn = Some (\<lambda>x. Inl (Error ''boom''))\<rparr>" _ "VStr ''abc''" _ _
              "\<lambda>x. Inl (Error ''boom'')"]
        runParser_dispatch [of "\<lparr>call_fn = None, parse_fn = None, validateSync_fn = None,
              decode_fn = None\<rparr>" _ VUndefined]
  by simp

lemma assign_prop_fresh:
  "k \<notin> fst ` set kvs \<Longrightarrow> k \<noteq> ''__proto__'' \<Longrightarrow> assign_prop kvs k v = kvs @ [(k, v)]"
  unfolding assign_prop_def by (induction kvs) auto

lemma parseEntries_filter:
  "parseEntries pm obj acc = parseEntries (filter (\<lambda>(k, p). has_prop obj k) pm) obj acc"
  by (induction pm obj acc rule: parseEntries.induct) (auto split: sum.splits)

lemma parseEntries_result:
  assumes "distinct (map fst pm)" and "''__proto__'' \<notin> fst ` set pm"
    and "fst ` set pm \<inter> fst ` set acc = {}"
    and "parseEntries pm obj acc = Inr r"
  shows "\<exists>res. r = VObj (acc @ res) \<and> map fst res = filter (has_prop obj) (map fst pm) \<and>
           (\<forall>(k, p)\<in>set pm. has_prop obj k \<longrightarrow>
               (\<exists>v. get_prop res k = Some v \<and> runParser p (read_prop obj k) = Inr v))"
  using assms
proof (induction pm obj acc rule: parseEntries.induct)
  case (1 obj result)
  then show ?case by simp
next
  case (2 key parser rest obj result)
  have np: "key \<noteq> ''__proto__''" and npr: "''__proto__'' \<notin> fst ` set rest"
    using "2.prems"(2) by auto
  show ?case
  proof (cases "has_prop obj key")
    case False
    with 2 show ?thesis by auto
  next
    case True
    with "2.prems" obtain v where v: "runParser parser (read_prop obj key) = Inr v"
      and r: "parseEntries rest obj (assign_prop result key v) = Inr r"
      by (auto split: sum.splits)
    have fresh: "key \<notin> fst ` set result" using "2.prems"(3) by auto
    then have sp: "assign_prop result key v = result @ [(key, v)]"
      using np by (rule assign_prop_fresh)
    have d: "distinct (map fst rest)" and knr: "key \<notin> fst ` set rest" using "2.prems"(1) by auto
    have disj: "fst ` set rest \<inter> fst ` set (assign_prop result key v) = {}"
      using "2.prems"(3) knr by (auto simp: sp)
    from "2.IH"(1) [OF True v d npr disj r] obtain res where
      res: "r = VObj (assign_prop result key v @ res)"
      "map fst res = filter (has_prop obj) (map fst rest)"
      "\<forall>(k, p)\<in>set rest. has_prop obj k \<longrightarrow>
               (\<exists>v. get_prop res k = Some v \<and> runParser p (read_prop obj k) = Inr v)"
      by blast
    let ?res = "(key, v) # res"
    have "r = VObj (result @ ?res)" using res(1) sp by simp
    moreover have "map fst ?res = filter (has_prop obj) (map fst ((key, parser) # rest))"
      using True res(2) by simp
    moreover have "\<forall>(k, p)\<in>set ((key, parser) # rest). has_prop obj k \<longrightarrow>
               (\<exists>v. get_prop ?res k = Some v \<and> runParser p (read_prop obj k) = Inr v)"
    proof (intro ballI, clarify)
      fix k p assume kp: "(k, p) \<in> set ((key, parser) # rest)" and hk: "has_prop obj k"
      show "\<exists>v. get_prop ?res k = Some v \<and> runParser p (read_prop obj k) = Inr v"
      proof (cases "k = key")
        case True
        with kp knr have "p = parser" by (auto simp: image_iff)
        with True v show ?thesis by (simp add: get_prop_def)
      next
        case False
        with kp have "(k, p) \<in> set rest" by auto
        with res(3) hk have "\<exists>v. get_prop res k = Some v \<and> runParser p (read_prop obj k) = Inr v"
          by blast
        with False show ?thesis by (simp add: get_prop_def)
      qed
    qed
    ultimately show ?thesis by blast
  qed
qed

lemma parseEntries_error:
  "parseEntries pm obj acc = Inl e \<Longrightarrow>
     \<exists>(k, p)\<in>set pm. has_prop obj k \<and> runParser p (read_prop obj k) = Inl e"
  by (induction pm obj acc rule: parseEntries.induct) (auto split: sum.splits if_splits)

lemma runParser_createObjectParser:
  "runParser (createObjectParser pm) v = objectParse pm v"
  by (simp add: runParser_def createObjectParser_def)

lemma read_prop_own:
  "k \<notin> set inheritedNames \<Longrightarrow> read_prop obj k = (case get_prop obj k of Some v \<Rightarrow> v | None \<Rightarrow> VUndefined)"
  by (simp add: read_prop_def lookup_js_def get_prop_def split: option.splits)

text \<open>
  Claim C5 says that the combined parser never adds a key. The test \<open>key in obj\<close> also
  finds what the record inherits: a parser named like a member of \<open>Object.prototype\<close>
  is run, on the inherited member, for a record that has no such key, and its result is
  added. A parser named \<open>__proto__\<close> is run on every record as well, and its result is
  not stored under that key.
\<close>

theorem inherited_key_is_added:
  "get_prop [] ''valueOf'' = (None :: jsval option) \<and>
   runParser (createObjectParser
       [(''valueOf'', \<lparr>call_fn = Some (\<lambda>v. Inr (VStr (typeof_js v))), parse_fn = None,
                       validateSync_fn = None, decode_fn = None\<rparr>)])
     (VObj []) = Inr (VObj [(''valueOf'', VStr ''function'')]) \<and>
   runParser (createObjectParser
       [(''__proto__'', \<lparr>call_fn = Some (\<lambda>v. Inr (VStr (typeof_js v))), parse_fn = None,
                         validateSync_fn = None, decode_fn = None\<rparr>)])
     (VObj [(''__proto__'', VNum 1)]) = Inr (VObj []) \<and>
   runParser (createObjectParser
       [(''__proto__'', \<lparr>call_fn = Some (\<lambda>v. Inl (Error ''required'')), parse_fn = None,
                         validateSync_fn = None, decode_fn = None\<rparr>)])
     (VObj []) = Inl (Error ''required'')"
  by (simp add: get_prop_def createObjectParser_def objectParse_def runParser_def has_prop_def
      read_prop_def lookup_js_def inheritedNames_def assign_prop_def)

text \<open>
  Claim C5, as amended. Take a parser map with distinct keys, none of them \<open>__proto__\<close>,
  and an input record. The combined parser runs the parsers of the keys that \<open>key in obj\<close>
  finds, which are the own keys of the record and the names of the members of
  \<open>Object.prototype\<close>, and no others: dropping the other entries from the map changes
  nothing. When it returns, the result is a record whose keys are exactly those keys of the
  map, in the order of the map, each bound to what its parser returned on \<open>obj[key]\<close>; a
  key of the input without a parser is not copied. When it throws, the error is one thrown
  by the parser of a key that was found, never one for a missing key. For a map none of
  whose keys is the name of a member of \<open>Object.prototype\<close>, the keys of the result are
  exactly the keys of the map that the record has itself, and no key is added.
\<close>

theorem createObjectParser_keys_found:
  assumes "distinct (map fst pm)" and "''__proto__'' \<notin> set (map fst pm)"
  shows "runParser (createObjectParser pm) (VObj obj) =
           runParser (createObjectParser (filter (\<lambda>(k, p). has_prop obj k) pm)) (VObj obj) \<and>
         (\<forall>r. runParser (createObjectParser pm) (VObj obj) = Inr r \<longrightarrow>
            (\<exists>res. r = VObj res \<and>
               map fst res =
                 filter (\<lambda>k. k \<in> set (map fst obj) \<or> k \<in> set inheritedNames) (map fst pm) \<and>
               (\<forall>(k, p)\<in>set pm. has_prop obj k \<longrightarrow>
                  (\<exists>v. get_prop res k = Some v \<and> runParser p (read_prop obj k) = Inr v)) \<and>
               (set (map fst pm) \<inter> set inheritedNames = {} \<longrightarrow>
                  map fst res = filter (\<lambda>k. k \<in> set (map fst obj)) (map fst pm) \<and>
                  set (map fst res) \<subseteq> set (map fst obj) \<and>
                  (\<forall>(k, p)\<in>set pm. k \<in> set (map fst obj) \<longrightarrow>
                     (\<exists>v w. get_prop obj k = Some w \<and> get_prop res k = Some v \<and>
                            runParser p w = Inr v))))) \<and>
         (\<forall>e. runParser (createObjectParser pm) (VObj obj) = Inl e \<longrightarrow>
            (\<exists>(k, p)\<in>set pm. has_prop obj k \<and> runParser p (read_prop obj k) = Inl e))"
proof (intro conjI allI impI)
  show "runParser (createObjectParser pm) (VObj obj) =
           runParser (createObjectParser (filter (\<lambda>(k, p). has_prop obj k) pm)) (VObj obj)"
    using parseEntries_filter [of pm obj "[]"]
    by (simp add: runParser_createObjectParser objectParse_def)
next
  fix r assume "runParser (createObjectParser pm) (VObj obj) = Inr r"
  then have pe: "parseEntries pm obj [] = Inr r"
    by (simp add: runParser_createObjectParser objectParse_def)
  from assms(2) have np: "''__proto__'' \<notin> fst ` set pm" by simp
  from parseEntries_result [OF assms(1) np _ pe] obtain res where
    res: "r = VObj res" "map fst res = filter (has_prop obj) (map fst pm)"
      "\<forall>(k, p)\<in>set pm. has_prop obj k \<longrightarrow>
               (\<exists>v. get_prop res k = Some v \<and> runParser p (read_prop obj k) = Inr v)"
    by auto
  have keys: "map fst res =
                 filter (\<lambda>k. k \<in> set (map fst obj) \<or> k \<in> set inheritedNames) (map fst pm)"
    using res(2) by (simp add: has_prop_def [abs_def])
  have own: "map fst res = filter (\<lambda>k. k \<in> set (map fst obj)) (map fst pm) \<and>
             set (map fst res) \<subseteq> set (map fst obj) \<and>
             (\<forall>(k, p)\<in>set pm. k \<in> set (map fst obj) \<longrightarrow>
                     (\<exists>v w. get_prop obj k = Some w \<and> get_prop res k = Some v \<and>
                            runParser p w = Inr v))"
    if disj: "set (map fst pm) \<inter> set inheritedNames = {}"
  proof (intro conjI ballI)
    have a: "filter (has_prop obj) (map fst pm) = filter (\<lambda>k. k \<in> set (map fst obj)) (map fst pm)"
      using disj by (intro filter_cong refl) (auto simp: has_prop_def)
    show b: "map fst res = filter (\<lambda>k. k \<in> set (map fst obj)) (map fst pm)"
      using res(2) a by simp
    show "set (map fst res) \<subseteq> set (map fst obj)" unfolding b by auto
    fix x assume x: "x \<in> set pm"
    obtain k p where kp: "x = (k, p)" by (cases x)
    have "k \<in> set (map fst obj) \<longrightarrow>
            (\<exists>v w. get_prop obj k = Some w \<and> get_prop res k = Some v \<and> runParser p w = Inr v)"
    proof
      assume ko: "k \<in> set (map fst obj)"
      from x kp disj have ni: "k \<notin> set inheritedNames" by force
      from ko have hp: "has_prop obj k" by (simp add: has_prop_def)
      from ko obtain w where w: "get_prop obj k = Some w"
        by (cases "map_of obj k") (auto simp: get_prop_def map_of_eq_None_iff)
      from res(3) x kp hp obtain v where "get_prop res k = Some v"
        "runParser p (read_prop obj k) = Inr v" by blast
      with w ni show "\<exists>v w. get_prop obj k = Some w \<and> get_prop res k = Some v \<and> runParser p w = Inr v"
        by (simp add: read_prop_own)
    qed
    then show "case x of (k, p) \<Rightarrow> k \<in> set (map fst obj) \<longrightarrow>
            (\<exists>v w. get_prop obj k = Some w \<and> get_prop res k = Some v \<and> runParser p w = Inr v)"
      using kp by simp
  qed
  from res(1) keys res(3) own
  show "\<exists>res. r = VObj res \<and>
               map fst res =
                 filter (\<lambda>k. k \<in> set (map fst obj) \<or> k \<in> set inheritedNames) (map fst pm) \<and>
               (\<forall>(k, p)\<in>set pm. has_prop obj k \<longrightarrow>
                  (\<exists>v. get_prop res k = Some v \<and> runParser p (read_prop obj k) = Inr v)) \<and>
               (set (map fst pm) \<inter> set inheritedNames = {} \<longrightarrow>
                  map fst res = filter (\<lambda>k. k \<in> set (map fst obj)) (map fst pm) \<and>
                  set (map fst res) \<subseteq> set (map fst obj) \<and>
                  (\<forall>(k, p)\<in>set pm. k \<in> set (map fst obj) \<longrightarrow>
                     (\<exists>v w. get_prop obj k = Some w \<and> get_prop res k = Some v \<and>
                            runParser p w = Inr v)))"
    by blast
next
  fix e assume "runParser (createObjectParser pm) (VObj obj) = Inl e"
  then have "parseEntries pm obj [] = Inl e"
    by (simp add: runParser_createObjectParser objectParse_def)
  from parseEntries_error [OF this]
  show "\<exists>(k, p)\<in>set pm. has_prop obj k \<and> runParser p (read_prop obj k) = Inl e" .
qed

theorem createObjectParser_keys_found_witness:
  "runParser (createObjectParser
       [(''page'', \<lparr>call_fn = Some (\<lambda>v. Inr (VStr (String_js v @ ''!''))), parse_fn = None,
                    validateSync_fn = None, decode_fn = None\<rparr>),
        (''q'', \<lparr>call_fn = Some (\<lambda>v. Inl (Error ''required'')), parse_fn = None,
                 validateSync_fn = None, decode_fn = None\<rparr>)])
     (VObj [(''extra'', VNum 7), (''page'', VStr ''5'')]) = Inr (VObj [(''page'', VStr ''5!'')])"
  using createObjectParser_keys_found [of
       "[(''page'', \<lparr>call_fn = Some (\<lambda>v. Inr (VStr (String_js v @ ''!''))), parse_fn = None,
                    validateSync_fn = None, decode_fn = None\<rparr>),
        (''q'', \<lparr>call_fn = Some (\<lambda>v. Inl (Error ''required'')), parse_fn = None,
                 validateSync_fn = None, decode_fn = None\<rparr>)]"
       "[(''extra'', VNum 7), (''page'', VStr ''5'')]"]
  by (simp add: has_prop_def createObjectParser_def objectParse_def runParser_def read_prop_def
      lookup_js_def get_prop_def inheritedNames_def assign_prop_def)

section \<open>Terminal nodes of the trie\<close>

text \<open>A node of the built trie is terminal exactly when the key path leading to it is the
  key path of a definition, and no key on a path of the trie is the name of a member of
  \<open>Object.prototype\<close>.\<close>

lemma get_prop_set_prop: "get_prop (set_prop kvs k v) k' = (if k' = k then Some v else get_prop kvs k')"
  by (induction kvs) (auto simp: get_prop_def)

lemma insertSegments_Cons:
  "insertSegments c (seg # segs) node =
     (if get_prop (children node) (segmentKey seg) = None \<and> segmentKey seg \<in> set inheritedNames
      then (if segs \<noteq> [] then BuildThrows TypeError
            else if segmentKey seg = ''__proto__'' then PrototypeWritten
            else Built node)
      else (case insertSegments c segs (edgeChild c seg node) of
              Built ch \<Rightarrow>
                Built (TreeNode (set_prop (children node) (segmentKey seg) ch)
                         (paramName node) (paramParser node) (queryParser node)
                         (nodeMeta node) (isTerminal node))
            | BuildThrows e \<Rightarrow> BuildThrows e
            | PrototypeWritten \<Rightarrow> PrototypeWritten))"
proof (cases "startsWith seg '':''")
  case True
  have np: "''$param'' \<notin> set inheritedNames" by (simp add: inheritedNames_def)
  from True have k: "segmentKey seg = ''$param''" by (simp add: segmentKey_def)
  show ?thesis unfolding k
    using True np
    by (simp add: Let_def lookup_js_def edgeChild_def get_prop_def k split: option.splits)
next
  case False
  have pr: "''__proto__'' \<in> set inheritedNames" by (simp add: inheritedNames_def)
  from False have k: "segmentKey seg = seg" by (simp add: segmentKey_def)
  show ?thesis unfolding k
    using False pr
    by (auto simp: Let_def lookup_js_def edgeChild_def get_prop_def k split: option.splits)
qed

lemma insertSegments_Cons_Built:
  assumes "insertSegments c (seg # segs) node = Built node'"
  shows "(get_prop (children node) (segmentKey seg) = None \<and> segmentKey seg \<in> set inheritedNames \<and>
          segs = [] \<and> node' = node) \<or>
         (\<not> (get_prop (children node) (segmentKey seg) = None \<and> segmentKey seg \<in> set inheritedNames) \<and>
          (\<exists>ch. insertSegments c segs (edgeChild c seg node) = Built ch \<and>
                node' = TreeNode (set_prop (children node) (segmentKey seg) ch)
                          (paramName node) (paramParser node) (queryParser node)
                          (nodeMeta node) (isTerminal node)))"
  using assms unfolding insertSegments_Cons by (auto split: if_splits built.splits)

lemma children_edgeChild:
  "children (edgeChild c seg node) =
     (case get_prop (children node) (segmentKey seg) of Some ch \<Rightarrow> children ch | None \<Rightarrow> [])"
  by (simp add: edgeChild_def Let_def newNode_def split: option.splits)

lemma isTerminal_edgeChild:
  "isTerminal (edgeChild c seg node) =
     (case get_prop (children node) (segmentKey seg) of Some ch \<Rightarrow> isTerminal ch | None \<Rightarrow> False)"
  by (simp add: edgeChild_def Let_def newNode_def split: option.splits)

lemma nodeAt_edgeChild:
  "ks \<noteq> [] \<Longrightarrow> nodeAt (edgeChild c seg node) ks = nodeAt node (segmentKey seg # ks)"
  by (cases ks) (simp_all add: children_edgeChild get_prop_def split: option.splits)

lemma terminalAt_Nil: "terminalAt node [] = isTerminal node"
  by (simp add: terminalAt_def)

lemma terminalAt_Cons:
  "terminalAt node (k # ks) = (case get_prop (children node) k of None \<Rightarrow> False | Some c \<Rightarrow> terminalAt c ks)"
  by (simp add: terminalAt_def split: option.splits)

lemma terminalAt_newNode: "terminalAt (newNode pn) ks = False"
  by (cases ks) (simp_all add: terminalAt_Nil terminalAt_Cons newNode_def get_prop_def)

lemma terminalAt_markTerminal: "terminalAt (markTerminal c node) ks = (terminalAt node ks \<or> ks = [])"
  by (cases ks) (simp_all add: terminalAt_Nil terminalAt_Cons markTerminal_def)

lemma terminalAt_edgeChild:
  "terminalAt (edgeChild c seg node) ks = terminalAt node (segmentKey seg # ks)"
proof (cases "ks = []")
  case True
  then show ?thesis
    by (simp add: terminalAt_Nil terminalAt_Cons isTerminal_edgeChild split: option.splits)
next
  case False
  then show ?thesis by (simp add: terminalAt_def nodeAt_edgeChild del: nodeAt.simps)
qed

lemma terminalAt_insertSegments:
  "insertSegments c segs node = Built node' \<Longrightarrow> set ks \<inter> set inheritedNames = {} \<Longrightarrow>
     terminalAt node' ks = (terminalAt node ks \<or> ks = map segmentKey segs)"
proof (induction segs arbitrary: node node' ks)
  case Nil
  then show ?case by (auto simp: terminalAt_markTerminal)
next
  case (Cons seg segs)
  from insertSegments_Cons_Built [OF Cons.prems(1)] show ?case
  proof (elim disjE conjE exE)
    assume "segmentKey seg \<in> set inheritedNames" "segs = []" "node' = node"
    with Cons.prems(2) show ?thesis by auto
  next
    fix ch
    assume ch: "insertSegments c segs (edgeChild c seg node) = Built ch"
      and n': "node' = TreeNode (set_prop (children node) (segmentKey seg) ch)
                          (paramName node) (paramParser node) (queryParser node)
                          (nodeMeta node) (isTerminal node)"
    show ?thesis
    proof (cases ks)
      case Nil
      then show ?thesis by (simp add: n' terminalAt_Nil)
    next
      case (Cons k ks')
      with Cons.prems(2) have ks': "set ks' \<inter> set inheritedNames = {}" by auto
      show ?thesis
      proof (cases "k = segmentKey seg")
        case True
        have "terminalAt node' ks = terminalAt ch ks'"
          by (simp add: n' Cons True terminalAt_Cons get_prop_set_prop)
        also have "\<dots> = (terminalAt (edgeChild c seg node) ks' \<or> ks' = map segmentKey segs)"
          by (rule Cons.IH [OF ch ks'])
        finally show ?thesis by (simp add: terminalAt_edgeChild Cons True)
      next
        case False
        then show ?thesis by (simp add: n' Cons terminalAt_Cons get_prop_set_prop)
      qed
    qed
  qed
qed

lemma nodeAt_markTerminal: "ks \<noteq> [] \<Longrightarrow> nodeAt (markTerminal c node) ks = nodeAt node ks"
  by (cases ks) (simp_all add: markTerminal_def)

lemma nodeAt_newNode: "ks \<noteq> [] \<Longrightarrow> nodeAt (newNode pn) ks = None"
  by (cases ks) (simp_all add: newNode_def get_prop_def)

lemma positions_insertSegments:
  "insertSegments c segs node = Built node' \<Longrightarrow>
     (\<forall>ks. nodeAt node ks \<noteq> None \<longrightarrow> set ks \<inter> set inheritedNames = {}) \<Longrightarrow>
     nodeAt node' ks \<noteq> None \<Longrightarrow> set ks \<inter> set inheritedNames = {}"
proof (induction segs arbitrary: node node' ks)
  case Nil
  show ?case
  proof (cases "ks = []")
    case True
    then show ?thesis by simp
  next
    case False
    from Nil.prems(1) have "node' = markTerminal c node" by simp
    with Nil.prems(3) False have "nodeAt node ks \<noteq> None"
      by (simp add: nodeAt_markTerminal del: nodeAt.simps)
    with Nil.prems(2) show ?thesis by blast
  qed
next
  case (Cons seg segs)
  from insertSegments_Cons_Built [OF Cons.prems(1)] show ?case
  proof (elim disjE conjE exE)
    assume "node' = node"
    with Cons.prems(2,3) show ?thesis by blast
  next
    fix ch
    assume ni: "\<not> (get_prop (children node) (segmentKey seg) = None \<and> segmentKey seg \<in> set inheritedNames)"
      and ch: "insertSegments c segs (edgeChild c seg node) = Built ch"
      and n': "node' = TreeNode (set_prop (children node) (segmentKey seg) ch)
                          (paramName node) (paramParser node) (queryParser node)
                          (nodeMeta node) (isTerminal node)"
    have key: "segmentKey seg \<notin> set inheritedNames"
    proof (cases "get_prop (children node) (segmentKey seg)")
      case None
      with ni show ?thesis by simp
    next
      case (Some c0)
      then have "nodeAt node [segmentKey seg] \<noteq> None" by simp
      with Cons.prems(2) have "set [segmentKey seg] \<inter> set inheritedNames = {}" by blast
      then show ?thesis by simp
    qed
    have inv: "\<forall>ks. nodeAt (edgeChild c seg node) ks \<noteq> None \<longrightarrow> set ks \<inter> set inheritedNames = {}"
    proof (intro allI impI)
      fix ks2 assume a: "nodeAt (edgeChild c seg node) ks2 \<noteq> None"
      show "set ks2 \<inter> set inheritedNames = {}"
      proof (cases "ks2 = []")
        case True
        then show ?thesis by simp
      next
        case False
        with a have "nodeAt node (segmentKey seg # ks2) \<noteq> None" by (simp add: nodeAt_edgeChild del: nodeAt.simps)
        with Cons.prems(2) have "set (segmentKey seg # ks2) \<inter> set inheritedNames = {}" by blast
        then show ?thesis by auto
      qed
    qed
    show ?thesis
    proof (cases ks)
      case Nil
      then show ?thesis by simp
    next
      case (Cons k ks')
      show ?thesis
      proof (cases "k = segmentKey seg")
        case True
        with Cons.prems(3) Cons n' have "nodeAt ch ks' \<noteq> None" by (simp add: get_prop_set_prop)
        from Cons.IH [OF ch inv this] key True Cons show ?thesis by simp
      next
        case False
        with Cons.prems(3) Cons n' have "nodeAt node ks \<noteq> None" by (simp add: get_prop_set_prop)
        with Cons.prems(2) show ?thesis by blast
      qed
    qed
  qed
qed

lemma terminalAt_addDefinition:
  "addDefinition d root = Built root' \<Longrightarrow> set ks \<inter> set inheritedNames = {} \<Longrightarrow>
     terminalAt root' ks = (terminalAt root ks \<or> ks = definitionKeys d)"
  by (auto simp: addDefinition_def Let_def terminalAt_markTerminal terminalAt_insertSegments
      definitionKeys_def split: if_splits)

lemma positions_addDefinition:
  "addDefinition d root = Built root' \<Longrightarrow>
     (\<forall>ks. nodeAt root ks \<noteq> None \<longrightarrow> set ks \<inter> set inheritedNames = {}) \<Longrightarrow>
     nodeAt root' ks \<noteq> None \<Longrightarrow> set ks \<inter> set inheritedNames = {}"
proof (cases "pathSegments (path (toConfig d)) = []")
  case True
  assume "addDefinition d root = Built root'"
    and inv: "\<forall>ks. nodeAt root ks \<noteq> None \<longrightarrow> set ks \<inter> set inheritedNames = {}"
    and n: "nodeAt root' ks \<noteq> None"
  with True have r: "root' = markTerminal (toConfig d) root" by (simp add: addDefinition_def)
  show ?thesis
  proof (cases "ks = []")
    case True
    then show ?thesis by simp
  next
    case False
    with n r have "nodeAt root ks \<noteq> None" by (simp add: nodeAt_markTerminal del: nodeAt.simps)
    with inv show ?thesis by blast
  qed
next
  case False
  assume "addDefinition d root = Built root'"
    and inv: "\<forall>ks. nodeAt root ks \<noteq> None \<longrightarrow> set ks \<inter> set inheritedNames = {}"
    and n: "nodeAt root' ks \<noteq> None"
  with False have "insertSegments (toConfig d) (pathSegments (path (toConfig d))) root = Built root'"
    by (simp add: addDefinition_def Let_def)
  from positions_insertSegments [OF this inv n] show ?thesis .
qed

lemma buildFrom_Built_Cons:
  "buildFrom (d # ds) root = Built tree \<Longrightarrow>
     \<exists>r. addDefinition d root = Built r \<and> buildFrom ds r = Built tree"
  by (auto split: built.splits)

lemma terminalAt_buildFrom:
  "buildFrom ds root = Built tree \<Longrightarrow> set ks \<inter> set inheritedNames = {} \<Longrightarrow>
     terminalAt tree ks = (terminalAt root ks \<or> (\<exists>d\<in>set ds. ks = definitionKeys d))"
proof (induction ds arbitrary: root)
  case Nil
  then show ?case by simp
next
  case (Cons d ds)
  from buildFrom_Built_Cons [OF Cons.prems(1)] obtain r
    where r: "addDefinition d root = Built r" and t: "buildFrom ds r = Built tree" by blast
  from Cons.IH [OF t Cons.prems(2)] terminalAt_addDefinition [OF r Cons.prems(2)]
  show ?case by auto
qed

lemma positions_buildFrom:
  "buildFrom ds root = Built tree \<Longrightarrow>
     (\<forall>ks. nodeAt root ks \<noteq> None \<longrightarrow> set ks \<inter> set inheritedNames = {}) \<Longrightarrow>
     nodeAt tree ks \<noteq> None \<Longrightarrow> set ks \<inter> set inheritedNames = {}"
proof (induction ds arbitrary: root)
  case Nil
  then show ?case by simp
next
  case (Cons d ds)
  from buildFrom_Built_Cons [OF Cons.prems(1)] obtain r
    where r: "addDefinition d root = Built r" and t: "buildFrom ds r = Built tree" by blast
  have "\<forall>ks. nodeAt r ks \<noteq> None \<longrightarrow> set ks \<inter> set inheritedNames = {}"
    using positions_addDefinition [OF r Cons.prems(2)] by blast
  from Cons.IH [OF t this Cons.prems(3)] show ?case .
qed

lemma positions_buildTree:
  assumes "buildTree ds = Built tree" and "nodeAt tree ks = Some n"
  shows "set ks \<inter> set inheritedNames = {}"
proof -
  have "\<forall>ks. nodeAt (newNode None) ks \<noteq> None \<longrightarrow> set ks \<inter> set inheritedNames = {}"
  proof (intro allI impI)
    fix ks2 assume "nodeAt (newNode None) ks2 \<noteq> None"
    then have "ks2 = []" by (cases "ks2 = []") (simp_all add: nodeAt_newNode del: nodeAt.simps)
    then show "set ks2 \<inter> set inheritedNames = {}" by simp
  qed
  from positions_buildFrom [OF assms(1) [unfolded buildTree_def] this, of ks] assms(2)
  show ?thesis by simp
qed

lemma terminalAt_buildTree:
  "buildTree ds = Built tree \<Longrightarrow> set ks \<inter> set inheritedNames = {} \<Longrightarrow>
     terminalAt tree ks = (\<exists>d\<in>set ds. definitionKeys d = ks)"
  by (auto simp: buildTree_def terminalAt_buildFrom terminalAt_newNode)

lemma terminalAt_nodeAt: "nodeAt root ks = Some n \<Longrightarrow> isTerminal n = terminalAt root ks"
  by (simp add: terminalAt_def)

lemma isTerminal_position:
  assumes "buildTree ds = Built tree" and "nodeAt tree ks = Some n"
  shows "isTerminal n \<longleftrightarrow> (\<exists>d\<in>set ds. definitionKeys d = ks)"
  using terminalAt_nodeAt [OF assms(2)]
    terminalAt_buildTree [OF assms(1) positions_buildTree [OF assms]]
  by simp

lemma createRoutes_Built:
  "createRoutes ds opts = Built routes \<Longrightarrow>
     buildTree ds = Built (rt_tree routes) \<and> rt_options routes = opts"
  by (auto simp: createRoutes_def split: built.splits)

section \<open>Navigation stays on the trie\<close>
















section \<open>The root of the table\<close>

lemma isTerminal_buildTree_root:
  assumes "buildTree ds = Built tree"
  shows "isTerminal tree = (\<exists>d\<in>set ds. pathSegments (path (toConfig d)) = [])"
  using isTerminal_position [OF assms, of "[]" tree] by (simp add: definitionKeys_def)

text \<open>
  Claim C3. On the object \<open>createRoutes\<close> returns, \<open>toString()\<close> and \<open>toPattern()\<close> always
  throw the "Use routes.$index" error, whatever was declared, and that error is none of
  the "is not a defined route" errors. The \<open>$index\<close> accessor works on the root node:
  its \<open>toString()\<close> and \<open>toPattern()\<close> return a string exactly when some definition has no
  segments and throw otherwise, its \<open>getMeta()\<close> returns the root node's metadata, and
  calling it with a query runs the root node's query parser and yields a route node with
  no segments.
\<close>

theorem root_is_a_container:
  assumes "createRoutes ds opts = Built routes"
  shows
  "root_get (rt_tree routes) (rt_options routes) ''toString'' =
     GToString (Inl (Error ''Cannot call toString() on routes directly. Use routes.$index for the root route.'')) \<and>
   root_get (rt_tree routes) (rt_options routes) ''toPattern'' =
     GToPattern (Inl (Error ''Cannot call toPattern() on routes directly. Use routes.$index for the root route.'')) \<and>
   ''Cannot call toString() on routes directly. Use routes.$index for the root route.'' \<noteq> rootNotDefinedMessage \<and>
   ''Cannot call toPattern() on routes directly. Use routes.$index for the root route.'' \<noteq> rootNotDefinedMessage \<and>
   ''Cannot call toString() on routes directly. Use routes.$index for the root route.'' \<noteq> notDefinedMessage pat \<and>
   ''Cannot call toPattern() on routes directly. Use routes.$index for the root route.'' \<noteq> notDefinedMessage pat \<and>
   root_get (rt_tree routes) (rt_options routes) ''$index'' = GIndex \<and>
   rt_options routes = opts \<and>
   index_get (rt_tree routes) opts ''toString'' =
     GToString (if \<exists>d\<in>set ds. pathSegments (path (toConfig d)) = []
                then Inr (buildPath [] VUndefined (trailingSlashOf opts))
                else Inl (Error rootNotDefinedMessage)) \<and>
   index_get (rt_tree routes) opts ''toPattern'' =
     GToPattern (if \<exists>d\<in>set ds. pathSegments (path (toConfig d)) = []
                 then Inr ''/''
                 else Inl (Error rootNotDefinedMessage)) \<and>
   index_get (rt_tree routes) opts ''getMeta'' = GGetMeta (nodeMeta (rt_tree routes)) \<and>
   index_call (rt_tree routes) opts q =
     (case (if truthy q then (case queryParser (rt_tree routes) of Some qp \<Rightarrow> runParser qp q | None \<Rightarrow> Inr q)
            else Inr q) of
        Inl e \<Rightarrow> Inl e
      | Inr validated \<Rightarrow>
          Inr (createRouteNode [] validated (nodeMeta (rt_tree routes)) (trailingSlashOf opts)))"
proof -
  from createRoutes_Built [OF assms]
  have bt: "buildTree ds = Built (rt_tree routes)" and ro: "rt_options routes = opts"
    by simp_all
  show ?thesis
    by (simp add: root_get_def index_get_def index_toString_def index_toPattern_def
      index_call_def createIndexNode_def isTerminal_buildTree_root [OF bt] rootNotDefinedMessage_def
      notDefinedMessage_def ro)
qed

theorem root_is_a_container_witness:
  "(\<exists>routes. createRoutes [PathString ''/'', PathString ''/about''] \<lparr>trailingSlash = None\<rparr> = Built routes \<and>
      index_get (rt_tree routes) \<lparr>trailingSlash = None\<rparr> ''toString'' = GToString (Inr ''/'') \<and>
      root_get (rt_tree routes) (rt_options routes) ''toString'' =
        GToString (Inl (Error ''Cannot call toString() on routes directly. Use routes.$index for the root route.''))) \<and>
   (\<exists>routes. createRoutes [PathString ''/about''] \<lparr>trailingSlash = None\<rparr> = Built routes \<and>
      index_get (rt_tree routes) \<lparr>trailingSlash = None\<rparr> ''toString'' = GToString (Inl (Error rootNotDefinedMessage)))"
proof -
  have "case createRoutes [PathString ''/'', PathString ''/about''] \<lparr>trailingSlash = None\<rparr> of
          Built r \<Rightarrow> True | _ \<Rightarrow> False"
    by code_simp
  then obtain r1 where r1: "createRoutes [PathString ''/'', PathString ''/about''] \<lparr>trailingSlash = None\<rparr> = Built r1"
    by (auto split: built.splits)
  have "case createRoutes [PathString ''/about''] \<lparr>trailingSlash = None\<rparr> of
          Built r \<Rightarrow> True | _ \<Rightarrow> False"
    by code_simp
  then obtain r2 where r2: "createRoutes [PathString ''/about''] \<lparr>trailingSlash = None\<rparr> = Built r2"
    by (auto split: built.splits)
  from root_is_a_container [OF r1, of "[]" VUndefined] r1
  have a: "\<exists>routes. createRoutes [PathString ''/'', PathString ''/about''] \<lparr>trailingSlash = None\<rparr> = Built routes \<and>
      index_get (rt_tree routes) \<lparr>trailingSlash = None\<rparr> ''toString'' = GToString (Inr ''/'') \<and>
      root_get (rt_tree routes) (rt_options routes) ''toString'' =
        GToString (Inl (Error ''Cannot call toString() on routes directly. Use routes.$index for the root route.''))"
    by (auto simp: toConfig_def pathSegments_def buildPath_def trailingSlashOf_def)
  from root_is_a_container [OF r2, of "[]" VUndefined] r2
  have b: "\<exists>routes. createRoutes [PathString ''/about''] \<lparr>trailingSlash = None\<rparr> = Built routes \<and>
      index_get (rt_tree routes) \<lparr>trailingSlash = None\<rparr> ''toString'' = GToString (Inl (Error rootNotDefinedMessage))"
    by (simp add: toConfig_def pathSegments_def buildPath_def trailingSlashOf_def)
  from a b show ?thesis by blast
qed

section \<open>Serialising\<close>

text \<open>
  Claim C6 says that \<open>buildPath\<close> appends the trailing slash only when the path does not
  already end in one. The code appends it whenever \<open>trailingSlash\<close> is set, to whatever
  the segments gave: the root path comes out as two slashes, directly, through \<open>$index\<close>,
  and after an empty last value.
\<close>

theorem buildPath_doubles_the_root_slash:
  "buildPath [] VUndefined True = ''//'' \<and>
   (case buildTree [PathString ''/''] of
      Built tree \<Rightarrow> index_toString tree \<lparr>trailingSlash = Some True\<rparr> = Inr ''//''
    | _ \<Rightarrow> False) \<and>
   buildPath [Param (Some ''id'') []] VUndefined True = ''//'' \<and>
   buildPath segments VUndefined True = buildPath segments VUndefined False @ ''/''"
proof -
  have "buildPath [] VUndefined True = ''//'' \<and>
        (case buildTree [PathString ''/''] of
           Built tree \<Rightarrow> index_toString tree \<lparr>trailingSlash = Some True\<rparr> = Inr ''//''
         | _ \<Rightarrow> False) \<and>
        buildPath [Param (Some ''id'') []] VUndefined True = ''//''"
    by code_simp
  moreover have "buildPath segments VUndefined True = buildPath segments VUndefined False @ ''/''"
    by (simp add: buildPath_def)
  ultimately show ?thesis by simp
qed

text \<open>The repository's test "handles trailing slash on root" expects a single slash
  there.\<close>

theorem buildPath_doubles_the_root_slash_witness:
  "(case buildTree [PathString ''/''] of
      Built tree \<Rightarrow> index_toString tree \<lparr>trailingSlash = Some True\<rparr> \<noteq> Inr ''/''
    | _ \<Rightarrow> False)"
  using buildPath_doubles_the_root_slash by (auto split: built.splits)

section \<open>Descending by a static name\<close>




section \<open>The parametric edge\<close>

lemma paramName_insertSegments:
  "insertSegments c segs n = Built n' \<Longrightarrow> paramName n' = paramName n"
proof (cases segs)
  case Nil
  assume "insertSegments c segs n = Built n'"
  with Nil show ?thesis by (auto simp: markTerminal_def)
next
  case (Cons seg segs')
  assume "insertSegments c segs n = Built n'"
  from insertSegments_Cons_Built [OF this [unfolded Cons]] show ?thesis by auto
qed

lemma paramParser_insertSegments:
  "insertSegments c segs n = Built n' \<Longrightarrow> paramParser n' = paramParser n"
proof (cases segs)
  case Nil
  assume "insertSegments c segs n = Built n'"
  with Nil show ?thesis by (auto simp: markTerminal_def)
next
  case (Cons seg segs')
  assume "insertSegments c segs n = Built n'"
  from insertSegments_Cons_Built [OF this [unfolded Cons]] show ?thesis by auto
qed

lemma paramName_edgeChild:
  "paramName (edgeChild c seg node) =
     (case get_prop (children node) (segmentKey seg) of
        Some ch \<Rightarrow> paramName ch
      | None \<Rightarrow> declaredName seg)"
  by (simp add: edgeChild_def Let_def newNode_def declaredName_def split: option.splits)

lemma paramParser_edgeChild:
  "paramParser (edgeChild c seg node) =
     (case (if startsWith seg '':'' then paramsLookup c (drop 1 seg) else None) of
        Some p \<Rightarrow> Some p
      | None \<Rightarrow> (case get_prop (children node) (segmentKey seg) of
                   Some ch \<Rightarrow> paramParser ch
                 | None \<Rightarrow> None))"
  by (simp add: edgeChild_def Let_def newNode_def split: option.splits)

lemma nodeAt_rebuilt:
  "nodeAt (TreeNode (set_prop (children node) key ch) pn pp qp m t) (k # ks) =
     (if k = key then nodeAt ch ks else nodeAt node (k # ks))"
  by (simp add: get_prop_set_prop)

lemma pnAt_markTerminal: "ks \<noteq> [] \<Longrightarrow> pnAt (markTerminal c node) ks = pnAt node ks"
  by (simp add: pnAt_def nodeAt_markTerminal)

lemma ppAt_markTerminal: "ks \<noteq> [] \<Longrightarrow> ppAt (markTerminal c node) ks = ppAt node ks"
  by (simp add: ppAt_def nodeAt_markTerminal)

lemma take_singleton_eq: "ks \<noteq> [] \<Longrightarrow> (take (length ks) [k] = ks) = (ks = [k])"
  by (cases ks) auto

lemma pnAt_insertSegments:
  "insertSegments c segs node = Built node' \<Longrightarrow> ks \<noteq> [] \<Longrightarrow> set ks \<inter> set inheritedNames = {} \<Longrightarrow>
     pnAt node' ks =
     (case pnAt node ks of
        Some x \<Rightarrow> Some x
      | None \<Rightarrow> if take (length ks) (map segmentKey segs) = ks
                then Some (declaredName (segs ! (length ks - 1))) else None)"
proof (induction segs arbitrary: node node' ks)
  case Nil
  then show ?case by (auto simp: pnAt_markTerminal split: option.splits)
next
  case (Cons seg segs)
  from Cons.prems(2) obtain k ks' where ks: "ks = k # ks'" by (cases ks) auto
  from insertSegments_Cons_Built [OF Cons.prems(1)] show ?case
  proof (elim disjE conjE exE)
    assume inh: "segmentKey seg \<in> set inheritedNames" and e: "segs = []" and n: "node' = node"
    from inh Cons.prems(3) have "ks \<noteq> [segmentKey seg]" by auto
    with Cons.prems(2) have "take (length ks) [segmentKey seg] \<noteq> ks"
      by (simp add: take_singleton_eq)
    then show ?thesis by (simp add: n e split: option.splits)
  next
    fix ch
    assume ch: "insertSegments c segs (edgeChild c seg node) = Built ch"
      and n': "node' = TreeNode (set_prop (children node) (segmentKey seg) ch)
                          (paramName node) (paramParser node) (queryParser node)
                          (nodeMeta node) (isTerminal node)"
    show ?thesis
    proof (cases "k = segmentKey seg")
      case False
      then show ?thesis unfolding ks n' pnAt_def nodeAt_rebuilt by (simp split: option.splits)
    next
      case True
      show ?thesis
      proof (cases "ks' = []")
        case True
        have "pnAt node' ks = Some (paramName (edgeChild c seg node))"
          unfolding ks n' pnAt_def nodeAt_rebuilt
          using \<open>k = segmentKey seg\<close> True paramName_insertSegments [OF ch] by simp
        then show ?thesis unfolding ks using \<open>k = segmentKey seg\<close> True
          by (simp add: paramName_edgeChild pnAt_def split: option.splits)
      next
        case False
        from Cons.prems(3) ks have ks'i: "set ks' \<inter> set inheritedNames = {}" by auto
        have "pnAt node' ks = pnAt ch ks'"
          unfolding ks n' pnAt_def nodeAt_rebuilt using \<open>k = segmentKey seg\<close> by simp
        also note Cons.IH [OF ch False ks'i]
        also have "pnAt (edgeChild c seg node) ks' = pnAt node ks"
          unfolding ks pnAt_def using False \<open>k = segmentKey seg\<close>
          by (simp add: nodeAt_edgeChild del: nodeAt.simps)
        finally show ?thesis using False \<open>k = segmentKey seg\<close> unfolding ks
          by (cases ks') (auto split: option.splits)
      qed
    qed
  qed
qed

lemma ppAt_insertSegments:
  "insertSegments c segs node = Built node' \<Longrightarrow> ks \<noteq> [] \<Longrightarrow> set ks \<inter> set inheritedNames = {} \<Longrightarrow>
     ppAt node' ks =
     (if take (length ks) (map segmentKey segs) = ks then
        (case (if startsWith (segs ! (length ks - 1)) '':''
               then paramsLookup c (drop 1 (segs ! (length ks - 1))) else None) of
           Some p \<Rightarrow> Some (Some p)
         | None \<Rightarrow> (case ppAt node ks of Some x \<Rightarrow> Some x | None \<Rightarrow> Some None))
      else ppAt node ks)"
proof (induction segs arbitrary: node node' ks)
  case Nil
  then show ?case by (auto simp: ppAt_markTerminal split: option.splits)
next
  case (Cons seg segs)
  from Cons.prems(2) obtain k ks' where ks: "ks = k # ks'" by (cases ks) auto
  from insertSegments_Cons_Built [OF Cons.prems(1)] show ?case
  proof (elim disjE conjE exE)
    assume inh: "segmentKey seg \<in> set inheritedNames" and e: "segs = []" and n: "node' = node"
    from inh Cons.prems(3) have "ks \<noteq> [segmentKey seg]" by auto
    with Cons.prems(2) have "take (length ks) [segmentKey seg] \<noteq> ks"
      by (simp add: take_singleton_eq)
    then show ?thesis by (simp add: n e)
  next
    fix ch
    assume ch: "insertSegments c segs (edgeChild c seg node) = Built ch"
      and n': "node' = TreeNode (set_prop (children node) (segmentKey seg) ch)
                          (paramName node) (paramParser node) (queryParser node)
                          (nodeMeta node) (isTerminal node)"
    show ?thesis
    proof (cases "k = segmentKey seg")
      case False
      then show ?thesis unfolding ks n' ppAt_def nodeAt_rebuilt by (simp split: option.splits)
    next
      case True
      show ?thesis
      proof (cases "ks' = []")
        case True
        have "ppAt node' ks = Some (paramParser (edgeChild c seg node))"
          unfolding ks n' ppAt_def nodeAt_rebuilt
          using \<open>k = segmentKey seg\<close> True paramParser_insertSegments [OF ch] by simp
        then show ?thesis unfolding ks using \<open>k = segmentKey seg\<close> True
          by (auto simp: paramParser_edgeChild ppAt_def split: option.splits if_splits)
      next
        case False
        from Cons.prems(3) ks have ks'i: "set ks' \<inter> set inheritedNames = {}" by auto
        have "ppAt node' ks = ppAt ch ks'"
          unfolding ks n' ppAt_def nodeAt_rebuilt using \<open>k = segmentKey seg\<close> by simp
        also note Cons.IH [OF ch False ks'i]
        also have "ppAt (edgeChild c seg node) ks' = ppAt node ks"
          unfolding ks ppAt_def using False \<open>k = segmentKey seg\<close>
          by (simp add: nodeAt_edgeChild del: nodeAt.simps)
        finally show ?thesis using False \<open>k = segmentKey seg\<close> unfolding ks
          by (cases ks') (auto split: option.splits)
      qed
    qed
  qed
qed

lemma pnAt_addDefinition:
  assumes "addDefinition d root = Built root'" and "ks \<noteq> []"
    and "set ks \<inter> set inheritedNames = {}"
  shows "pnAt root' ks =
     (case pnAt root ks of
        Some x \<Rightarrow> Some x
      | None \<Rightarrow> if passesThrough ks d then Some (declaredName (edgeSegment ks d)) else None)"
proof (cases "pathSegments (path (toConfig d)) = []")
  case True
  with assms show ?thesis
    by (auto simp: addDefinition_def pnAt_markTerminal passesThrough_def definitionKeys_def
        split: option.splits)
next
  case False
  with assms(1) have "insertSegments (toConfig d) (pathSegments (path (toConfig d))) root = Built root'"
    by (simp add: addDefinition_def Let_def)
  from pnAt_insertSegments [OF this assms(2,3)] assms(2) show ?thesis
    by (simp add: passesThrough_def edgeSegment_def definitionKeys_def split: option.splits)
qed

lemma ppAt_addDefinition:
  assumes "addDefinition d root = Built root'" and "ks \<noteq> []"
    and "set ks \<inter> set inheritedNames = {}"
  shows "ppAt root' ks =
     (if passesThrough ks d then
        (case declaredValidator ks d of
           Some p \<Rightarrow> Some (Some p)
         | None \<Rightarrow> (case ppAt root ks of Some x \<Rightarrow> Some x | None \<Rightarrow> Some None))
      else ppAt root ks)"
proof (cases "pathSegments (path (toConfig d)) = []")
  case True
  with assms show ?thesis
    by (auto simp: addDefinition_def ppAt_markTerminal passesThrough_def definitionKeys_def)
next
  case False
  with assms(1) have "insertSegments (toConfig d) (pathSegments (path (toConfig d))) root = Built root'"
    by (simp add: addDefinition_def Let_def)
  from ppAt_insertSegments [OF this assms(2,3)] assms(2) show ?thesis
    by (simp add: passesThrough_def edgeSegment_def declaredValidator_def definitionKeys_def)
qed

lemma buildFrom_snoc:
  "buildFrom (ds @ [d]) root =
     (case buildFrom ds root of
        Built t \<Rightarrow> addDefinition d t
      | BuildThrows e \<Rightarrow> BuildThrows e
      | PrototypeWritten \<Rightarrow> PrototypeWritten)"
  by (induction ds arbitrary: root) (auto split: built.splits)

lemma buildTree_snoc_Built:
  "buildTree (ds @ [d]) = Built tree \<Longrightarrow>
     \<exists>t. buildTree ds = Built t \<and> addDefinition d t = Built tree"
  by (auto simp: buildTree_def buildFrom_snoc split: built.splits)

lemma find_snoc:
  "find P (xs @ [x]) = (case find P xs of Some y \<Rightarrow> Some y | None \<Rightarrow> if P x then Some x else None)"
  by (induction xs) auto

lemma pnAt_buildTree:
  "buildTree ds = Built tree \<Longrightarrow> ks \<noteq> [] \<Longrightarrow> set ks \<inter> set inheritedNames = {} \<Longrightarrow>
     pnAt tree ks =
     (case find (passesThrough ks) ds of
        Some d \<Rightarrow> Some (declaredName (edgeSegment ks d))
      | None \<Rightarrow> None)"
proof (induction ds arbitrary: tree rule: rev_induct)
  case Nil
  then show ?case by (auto simp: buildTree_def pnAt_def nodeAt_newNode)
next
  case (snoc d ds)
  from buildTree_snoc_Built [OF snoc.prems(1)] obtain t
    where t: "buildTree ds = Built t" and a: "addDefinition d t = Built tree" by blast
  from snoc.IH [OF t snoc.prems(2,3)] pnAt_addDefinition [OF a snoc.prems(2,3)]
  show ?case by (simp add: find_snoc split: option.splits)
qed

lemma map_filter_snoc:
  "List.map_filter f (xs @ [x]) = List.map_filter f xs @ (case f x of None \<Rightarrow> [] | Some y \<Rightarrow> [y])"
  by (simp add: List.map_filter_def split: option.splits)

lemma ppAt_buildTree:
  "buildTree ds = Built tree \<Longrightarrow> ks \<noteq> [] \<Longrightarrow> set ks \<inter> set inheritedNames = {} \<Longrightarrow>
     ppAt tree ks =
     (if \<exists>d\<in>set ds. passesThrough ks d
      then Some (case List.map_filter (declaredValidator ks) ds of
                   [] \<Rightarrow> None
                 | v # vs \<Rightarrow> Some (last (v # vs)))
      else None)"
proof (induction ds arbitrary: tree rule: rev_induct)
  case Nil
  then show ?case by (auto simp: buildTree_def ppAt_def nodeAt_newNode)
next
  case (snoc d ds)
  from buildTree_snoc_Built [OF snoc.prems(1)] obtain t
    where t: "buildTree ds = Built t" and a: "addDefinition d t = Built tree" by blast
  have nv: "\<not> passesThrough ks d \<Longrightarrow> declaredValidator ks d = None"
    by (simp add: declaredValidator_def)
  have none: "List.map_filter (declaredValidator ks) xs = []" if "\<forall>x\<in>set xs. \<not> passesThrough ks x" for xs
    using that by (induction xs) (auto simp: List.map_filter_def declaredValidator_def)
  from snoc.IH [OF t snoc.prems(2,3)] ppAt_addDefinition [OF a snoc.prems(2,3)]
  show ?case
    by (auto simp: map_filter_snoc nv none split: option.splits list.splits)
qed

text \<open>
  Claim C7, as amended. Every parametric segment is stored under the one key \<open>$param\<close>,
  whatever its name, so definitions with parametric segments at the same position share
  the edge, and share it with a static segment that is literally \<open>$param\<close>. Take a node
  of the built trie other than the root. Some definition's walk goes through it, and the
  node keeps what the first such definition declares with its segment there: the parameter
  name of a parametric segment, no name (\<open>null\<close>) for a static one; the name is never
  reassigned. The validator of the node is the one of the last definition through the node
  whose segment there is parametric and for whose parameter name \<open>config.params?.[name]\<close>
  finds a validator (none if no definition does).
\<close>

theorem sentinel_edge_first_name_last_validator:
  assumes "buildTree ds = Built tree" and "nodeAt tree ks = Some n" and "ks \<noteq> []"
  shows "(\<exists>d. find (passesThrough ks) ds = Some d \<and> paramName n = declaredName (edgeSegment ks d)) \<and>
         paramParser n =
           (case List.map_filter (declaredValidator ks) ds of
              [] \<Rightarrow> None
            | v # vs \<Rightarrow> Some (last (v # vs))) \<and>
         (\<forall>seg. startsWith seg '':'' \<longrightarrow> segmentKey seg = ''$param'')"
proof -
  from positions_buildTree [OF assms(1,2)] have ni: "set ks \<inter> set inheritedNames = {}" .
  from assms(2) have pn: "pnAt tree ks = Some (paramName n)"
    and pp: "ppAt tree ks = Some (paramParser n)"
    by (simp_all add: pnAt_def ppAt_def)
  from pn pnAt_buildTree [OF assms(1,3) ni]
  have "\<exists>d. find (passesThrough ks) ds = Some d \<and> paramName n = declaredName (edgeSegment ks d)"
    by (auto split: option.splits)
  moreover from pp ppAt_buildTree [OF assms(1,3) ni]
  have "paramParser n =
           (case List.map_filter (declaredValidator ks) ds of
              [] \<Rightarrow> None
            | v # vs \<Rightarrow> Some (last (v # vs)))"
    by (auto split: if_splits)
  ultimately show ?thesis by (simp add: segmentKey_def)
qed

text \<open>The claim as first stated has the last-declared name on the node; after \<open>/a/:x\<close>
  and \<open>/a/:y\<close> the node still carries \<open>x\<close>.\<close>

theorem sentinel_edge_keeps_first_name:
  "definitionKeys (PathString ''/a/:x'') = [''a'', ''$param''] \<and>
   definitionKeys (PathString ''/a/:y'') = [''a'', ''$param''] \<and>
   (case buildTree [PathString ''/a/:x'', PathString ''/a/:y''] of
      Built tree \<Rightarrow>
        map_option paramName (nodeAt tree [''a'', ''$param'']) = Some (Some ''x'') \<and>
        map_option paramName (nodeAt tree [''a'', ''$param'']) \<noteq> Some (Some ''y'')
    | _ \<Rightarrow> False)"
  by code_simp

theorem sentinel_edge_first_name_last_validator_witness:
  "(\<exists>tree n. buildTree
            [Config \<lparr>path = ''/a/:x'',  query = None,
                     params = Some [(''x'', \<lparr>call_fn = Some (\<lambda>v. Inr (VStr ''one'')), parse_fn = None,
                                               validateSync_fn = None, decode_fn = None\<rparr>)],
                     name = None, meta = None\<rparr>,
             Config \<lparr>path = ''/a/:y'',  query = None,
                     params = Some [(''y'', \<lparr>call_fn = Some (\<lambda>v. Inr (VStr ''two'')), parse_fn = None,
                                               validateSync_fn = None, decode_fn = None\<rparr>)],
                     name = None, meta = None\<rparr>] = Built tree \<and>
       nodeAt tree [''a'', ''$param''] = Some n \<and>
       paramName n = Some ''x'' \<and>
       paramParser n = Some \<lparr>call_fn = Some (\<lambda>v. Inr (VStr ''two'')), parse_fn = None,
                               validateSync_fn = None, decode_fn = None\<rparr>) \<and>
   (\<exists>tree n. buildTree
            [PathString ''/a/$param'',
             Config \<lparr>path = ''/a/:valueOf'',  query = None, params = Some [], name = None, meta = None\<rparr>]
          = Built tree \<and>
       nodeAt tree [''a'', ''$param''] = Some n \<and>
       paramName n = None \<and>
       paramParser n = Some (nativeParser ''valueOf''))"
proof -
  let ?ds = "[Config \<lparr>path = ''/a/:x'',  query = None,
                     params = Some [(''x'', \<lparr>call_fn = Some (\<lambda>v. Inr (VStr ''one'')), parse_fn = None,
                                               validateSync_fn = None, decode_fn = None\<rparr>)],
                     name = None, meta = None\<rparr>,
             Config \<lparr>path = ''/a/:y'',  query = None,
                     params = Some [(''y'', \<lparr>call_fn = Some (\<lambda>v. Inr (VStr ''two'')), parse_fn = None,
                                               validateSync_fn = None, decode_fn = None\<rparr>)],
                     name = None, meta = None\<rparr>]"
  let ?es = "[PathString ''/a/$param'',
             Config \<lparr>path = ''/a/:valueOf'',  query = None, params = Some [], name = None, meta = None\<rparr>]"
  have "case buildTree ?ds of
          Built tree \<Rightarrow> (case nodeAt tree [''a'', ''$param''] of None \<Rightarrow> False | Some n \<Rightarrow> True)
        | _ \<Rightarrow> False"
    by code_simp
  then obtain tree n where t: "buildTree ?ds = Built tree" and n: "nodeAt tree [''a'', ''$param''] = Some n"
    by (auto split: built.splits option.splits)
  have "case buildTree ?es of
          Built tree \<Rightarrow> (case nodeAt tree [''a'', ''$param''] of None \<Rightarrow> False | Some n \<Rightarrow> True)
        | _ \<Rightarrow> False"
    by code_simp
  then obtain tree2 n2 where t2: "buildTree ?es = Built tree2" and n2: "nodeAt tree2 [''a'', ''$param''] = Some n2"
    by (auto split: built.splits option.splits)
  from sentinel_edge_first_name_last_validator [OF t n]
  have a: "paramName n = Some ''x'' \<and>
       paramParser n = Some \<lparr>call_fn = Some (\<lambda>v. Inr (VStr ''two'')), parse_fn = None,
                               validateSync_fn = None, decode_fn = None\<rparr>"
    by (simp add: passesThrough_def definitionKeys_def toConfig_def pathSegments_def segmentKey_def
        startsWith_def declaredName_def edgeSegment_def declaredValidator_def List.map_filter_def
        paramsLookup_def lookup_js_def)
  from sentinel_edge_first_name_last_validator [OF t2 n2]
  have b: "paramName n2 = None \<and> paramParser n2 = Some (nativeParser ''valueOf'')"
    by (simp add: passesThrough_def definitionKeys_def toConfig_def pathSegments_def segmentKey_def
        startsWith_def declaredName_def edgeSegment_def declaredValidator_def List.map_filter_def
        paramsLookup_def lookup_js_def inheritedNames_def)
  from t n a t2 n2 b show ?thesis by blast
qed

section \<open>Static routes\<close>









section \<open>Named lookup\<close>

text \<open>The read of the registries through the root proxy throws on every table: the
  \<open>get\<close> trap answers the \<open>ROUTE_METADATA\<close> symbol with \<open>undefined\<close>, which is not
  what the property holds.\<close>

lemma readMetadata_throws: "readMetadata routes = Inl TypeError"
  by (simp add: readMetadata_def root_get_symbol_def)

text \<open>
  Claim C2 says that named lookup produces the string that navigating the trie with the
  same values produces. In the code \<open>getRouteByName\<close> produces no string: its first
  statement reads the registries through the root proxy, and that read throws a
  \<open>TypeError\<close>, for every table, name, params and query. The repository's tests of
  \<open>getRouteByName\<close> expect the rendered strings.
\<close>

theorem named_lookup_throws:
  assumes "createRoutes ds opts = Built routes"
  shows "getRouteByName routes n ps q = Inl TypeError \<and> getAllRoutes routes = Inl TypeError"
  by (simp add: getRouteByName_def getAllRoutes_def readMetadata_throws)

text \<open>The repository's test "returns route by name": the trie renders \<open>/users/abc\<close>,
  the named lookup throws.\<close>

theorem named_lookup_throws_witness:
  "\<exists>routes. createRoutes
        [Config \<lparr>path = ''/users/:userId'', query = None, params = None, name = Some ''user'', meta = None\<rparr>]
        \<lparr>trailingSlash = None\<rparr> = Built routes \<and>
      getRouteByName routes ''user'' (VObj [(''userId'', VStr ''abc'')]) VUndefined = Inl TypeError \<and>
      (\<exists>nav. navigate routes [Get ''users'', Call (VStr ''abc'') VUndefined] = Some nav \<and>
             proxy_toString nav = Inr ''/users/abc'')"
proof -
  let ?C = "createRoutes
        [Config \<lparr>path = ''/users/:userId'', query = None, params = None, name = Some ''user'', meta = None\<rparr>]
        \<lparr>trailingSlash = None\<rparr>"
  have "case ?C of
          Built routes \<Rightarrow>
            (case navigate routes [Get ''users'', Call (VStr ''abc'') VUndefined] of
               None \<Rightarrow> False
             | Some nav \<Rightarrow> proxy_toString nav = Inr ''/users/abc'')
        | _ \<Rightarrow> False"
    by code_simp
  then obtain routes nav where r: "?C = Built routes"
    and n: "navigate routes [Get ''users'', Call (VStr ''abc'') VUndefined] = Some nav"
    and s: "proxy_toString nav = Inr ''/users/abc''"
    by (auto split: built.splits option.splits)
  from named_lookup_throws [OF r, of "''user''" "VObj [(''userId'', VStr ''abc'')]" VUndefined] r n s
  show ?thesis by blast
qed

text \<open>
  Claim C9 says that \<open>getRouteByName\<close> does not raise when a parameter is missing, and
  renders \<open>undefined\<close> in its place. The statements that would do so are in the code: on
  the route registered for \<open>/users/:userId\<close> the parameter stage accepts the empty record
  and the string put together is \<open>/users/undefined\<close>. They are never reached, because the
  read of the registries before them throws.
\<close>

theorem missing_param_lookup_throws:
  "(case createRoutes
        [Config \<lparr>path = ''/users/:userId'', query = None, params = None, name = Some ''user'', meta = None\<rparr>]
        \<lparr>trailingSlash = None\<rparr> of
      Built routes \<Rightarrow>
        getRouteByName routes ''user'' (VObj []) VUndefined = Inl TypeError \<and>
        (case md_namedRoutes (rt_metadata routes) ''user'' of
           None \<Rightarrow> False
         | Some route \<Rightarrow>
             (case resolveParams route (VObj []) of
                Inl e \<Rightarrow> False
              | Inr resolvedParams \<Rightarrow> renderNamed route resolvedParams VUndefined = ''/users/undefined''))
    | _ \<Rightarrow> False)"
proof -
  have "case createRoutes
        [Config \<lparr>path = ''/users/:userId'', query = None, params = None, name = Some ''user'', meta = None\<rparr>]
        \<lparr>trailingSlash = None\<rparr> of
      Built routes \<Rightarrow>
        (case md_namedRoutes (rt_metadata routes) ''user'' of
           None \<Rightarrow> False
         | Some route \<Rightarrow>
             (case resolveParams route (VObj []) of
                Inl e \<Rightarrow> False
              | Inr resolvedParams \<Rightarrow> renderNamed route resolvedParams VUndefined = ''/users/undefined''))
    | _ \<Rightarrow> False"
    by code_simp
  then show ?thesis
    by (simp add: getRouteByName_def readMetadata_throws split: built.splits)
qed

theorem missing_param_lookup_throws_witness:
  "\<exists>routes. createRoutes
        [Config \<lparr>path = ''/users/:userId'', query = None, params = None, name = Some ''user'', meta = None\<rparr>]
        \<lparr>trailingSlash = None\<rparr> = Built routes \<and>
      getRouteByName routes ''user'' (VObj []) VUndefined = Inl TypeError"
  using missing_param_lookup_throws by (auto split: built.splits)

end
